theory Spec2Isabelle
  imports Main "HOL-Library.Sublist"
begin

section \<open>JavaScript values\<close>

text \<open>
  The three programs exchange JSON: HTTP response bodies, the profile snapshot and the
  enriched log. A parsed JSON text is a value of type \<open>json\<close>; an object is the list
  of its properties (the first binding of a key is the property's value). JavaScript's
  \<open>undefined\<close> is \<open>None\<close> of \<open>jsval\<close>. Numbers are kept as integers: no
  property below reads a fractional number.
  An operation that may raise a \<open>TypeError\<close> returns a value of type \<open>'a js\<close>.
\<close>

datatype json =
    JNull
  | JBool bool
  | JNum int
  | JStr string
  | JArr "json list"
  | JObj "(string \<times> json) list"

type_synonym jsval = "json option"

datatype 'a js = Throws | Returns 'a

text \<open>\<open>if (v)\<close>: the falsy values are undefined, null, false, 0 and the empty string.\<close>

fun truthy :: "jsval \<Rightarrow> bool" where
  "truthy None = False"
| "truthy (Some JNull) = False"
| "truthy (Some (JBool b)) = b"
| "truthy (Some (JNum n)) = (n \<noteq> 0)"
| "truthy (Some (JStr s)) = (s \<noteq> [])"
| "truthy (Some (JArr xs)) = True"
| "truthy (Some (JObj kv)) = True"

definition nullish :: "jsval \<Rightarrow> bool" where
  "nullish v = (v = None \<or> v = Some JNull)"

text \<open>
  \<open>v.k\<close> for the property names the programs read (none of them is a built-in
  property of strings, arrays, numbers or booleans): a \<open>TypeError\<close> on null and
  undefined, the property of an object, undefined on every other value.
\<close>

fun get_prop :: "jsval \<Rightarrow> string \<Rightarrow> jsval js" where
  "get_prop None k = Throws"
| "get_prop (Some JNull) k = Throws"
| "get_prop (Some (JObj kv)) k = Returns (map_of kv k)"
| "get_prop (Some v) k = Returns None"

text \<open>\<open>v?.k\<close>: undefined when \<open>v\<close> is null or undefined, and \<open>v.k\<close> otherwise.\<close>

fun opt_prop :: "jsval \<Rightarrow> string \<Rightarrow> jsval" where
  "opt_prop (Some (JObj kv)) k = map_of kv k"
| "opt_prop v k = None"

text \<open>
  \<open>v.length > 0\<close> and \<open>v[0]\<close> on a truthy value. Arrays and strings have their
  length; an object has the property it was given. The comparison with 0 converts
  booleans; a length given as a string or array (which JavaScript would convert through
  its number syntax) is read as not positive.
\<close>

fun js_length :: "json \<Rightarrow> jsval" where
  "js_length (JArr xs) = Some (JNum (int (length xs)))"
| "js_length (JStr s) = Some (JNum (int (length s)))"
| "js_length (JObj kv) = map_of kv ''length''"
| "js_length v = None"

fun gt_zero :: "jsval \<Rightarrow> bool" where
  "gt_zero (Some (JNum n)) = (0 < n)"
| "gt_zero (Some (JBool b)) = b"
| "gt_zero v = False"

fun js_index0 :: "json \<Rightarrow> jsval" where
  "js_index0 (JArr xs) = (case xs of [] \<Rightarrow> None | x # _ \<Rightarrow> Some x)"
| "js_index0 (JStr s) = (case s of [] \<Rightarrow> None | c # _ \<Rightarrow> Some (JStr [c]))"
| "js_index0 (JObj kv) = map_of kv ''0''"
| "js_index0 v = None"

text \<open>\<open>v[0]\<close> on any value: a \<open>TypeError\<close> on null and undefined.\<close>

definition index0 :: "jsval \<Rightarrow> jsval js" where
  "index0 v = (case v of None \<Rightarrow> Throws | Some JNull \<Rightarrow> Throws | Some j \<Rightarrow> Returns (js_index0 j))"

text \<open>
  \<open>a || b\<close> keeps \<open>a\<close> when it is truthy.
\<close>

definition or_else :: "jsval \<Rightarrow> json \<Rightarrow> json" where
  "or_else v d = (if truthy v then the v else d)"

text \<open>
  \<open>processedEmails.includes(v)\<close> and \<open>Set.add\<close> compare with SameValueZero. Every
  array and object here comes from its own \<open>JSON.parse\<close> call, so two of them are
  never the same reference; primitives compare by value.
\<close>

fun sameValueZero :: "json \<Rightarrow> json \<Rightarrow> bool" where
  "sameValueZero (JArr xs) w = False"
| "sameValueZero (JObj kv) w = False"
| "sameValueZero v w = (v = w)"

definition js_includes :: "json list \<Rightarrow> json \<Rightarrow> bool" where
  "js_includes xs v = list_ex (\<lambda>w. sameValueZero w v) xs"

definition set_add :: "json \<Rightarrow> json list \<Rightarrow> json list" where
  "set_add v xs = (if js_includes xs v then xs else xs @ [v])"

text \<open>
  A \<open>string\<close> stands for a JavaScript string. The programs compare strings, test
  them for emptiness and concatenate them; \<open>String.prototype.toLowerCase\<close> and
  \<open>String.prototype.trim\<close> are the platform's and are taken as parameters where the
  fetcher calls them.
\<close>

text \<open>
  \<open>xs.slice(0, e)\<close>: a negative end counts from the end of the array.
\<close>

definition slice0 :: "'a list \<Rightarrow> int \<Rightarrow> 'a list" where
  "slice0 xs e =
     (let n = int (length xs);
          k = (if e < 0 then max (n + e) 0 else min e n)
      in take (nat k) xs)"

text \<open>
  One HTTP exchange as the programs see it: \<open>fetch\<close> rejects, or it resolves to a
  response with a status and a body on which \<open>res.json()\<close> either rejects
  (\<open>None\<close>) or yields a JSON value.
\<close>

datatype response = NetworkError | Response nat "json option"


section \<open>The paginated fetcher (fetch_klaviyo_profiles.js)\<close>

record profile =
  email :: string
  profileId :: jsval

text \<open>
  What the fetcher runs against. The segment endpoint answers the \<open>n\<close>-th request
  of the run for a given cursor. The rest is the platform: \<open>next_cursor\<close> is
  \<open>new URL(next).searchParams.get("page[cursor]")\<close>, which throws on an invalid URL
  and yields null (\<open>None\<close>) when the parameter is missing; \<open>toLowerCase\<close> and
  \<open>trim\<close> are the string methods of these names.
\<close>

record klaviyo =
  segment_api :: "nat \<Rightarrow> string option \<Rightarrow> response"
  next_cursor :: "json \<Rightarrow> string option js"
  toLowerCase :: "string \<Rightarrow> string"
  trim :: "string \<Rightarrow> string"

datatype fstatus = Running | LimitReached | Abandoned | EndOfPages | BadCursor | Crashed

text \<open>
  The variables of \<open>fetchAllKlaviyoSegmentProfiles\<close> and what it does to the world:
  \<open>disk\<close> is the content of the snapshot file once this run has written it,
  \<open>requests\<close> counts the HTTP requests made, \<open>delays\<close> lists the
  \<open>setTimeout\<close> waits in milliseconds, \<open>fetched\<close> lists the profile objects the
  inner \<open>for\<close> loop has gone through, and \<open>status\<close> says how the \<open>while\<close>
  loop was left (\<open>Crashed\<close>: an uncaught \<open>TypeError\<close> rejected the function).
\<close>

record fstate =
  profiles :: "profile list"
  seenEmails :: "string set"
  cursor :: "string option"
  page :: nat
  disk :: "profile list option"
  requests :: nat
  delays :: "nat list"
  fetched :: "json list"
  status :: fstatus

definition fetch_init :: fstate where
  "fetch_init = \<lparr>profiles = [], seenEmails = {}, cursor = None, page = 1, disk = None,
                  requests = 0, delays = [], fetched = [], status = Running\<rparr>"

text \<open>The cursor is put into the URL only when it is truthy.\<close>

definition url_cursor :: "string option \<Rightarrow> string option" where
  "url_cursor c = (case c of None \<Rightarrow> None | Some s \<Rightarrow> if s = [] then None else Some s)"

text \<open>
  The payload test of the retry loop, \<open>!json.data || !Array.isArray(json.data)\<close>
  throwing "Invalid data format": it passes only on an object whose \<open>data\<close> is an
  array (reading \<open>data\<close> of null throws as well, into the same \<open>catch\<close>).
\<close>

definition valid_payload :: "json \<Rightarrow> bool" where
  "valid_payload j =
     (case get_prop (Some j) ''data'' of
        Throws \<Rightarrow> False
      | Returns d \<Rightarrow> (case d of Some (JArr xs) \<Rightarrow> True | _ \<Rightarrow> False))"

text \<open>An attempt fails when the request, the body or the payload test throws.\<close>

definition failed_attempt :: "response \<Rightarrow> bool" where
  "failed_attempt r =
     (case r of
        NetworkError \<Rightarrow> True
      | Response st None \<Rightarrow> True
      | Response st (Some j) \<Rightarrow> \<not> valid_payload j)"

text \<open>
  The inner \<open>while (attempt < maxRetries)\<close> loop. The variable \<open>json\<close> keeps the
  last body that parsed, also when its payload test failed. The result is
  \<open>json\<close>, \<open>attempt\<close>, the request count and the delays.
\<close>

function retry_loop ::
  "klaviyo \<Rightarrow> int \<Rightarrow> string option \<Rightarrow> nat \<Rightarrow> jsval \<Rightarrow> nat \<Rightarrow> nat list
     \<Rightarrow> jsval \<times> nat \<times> nat \<times> nat list" where
  "retry_loop env maxRetries cur attempt json reqs dls =
     (if int attempt < maxRetries then
        (case segment_api env reqs (url_cursor cur) of
           NetworkError \<Rightarrow>
             retry_loop env maxRetries cur (attempt + 1) json (reqs + 1)
               (dls @ [500 * (attempt + 1)])
         | Response st None \<Rightarrow>
             retry_loop env maxRetries cur (attempt + 1) json (reqs + 1)
               (dls @ [500 * (attempt + 1)])
         | Response st (Some j) \<Rightarrow>
             if valid_payload j then (Some j, attempt, reqs + 1, dls)
             else retry_loop env maxRetries cur (attempt + 1) (Some j) (reqs + 1)
                    (dls @ [500 * (attempt + 1)]))
      else (json, attempt, reqs, dls))"
  by pat_completeness auto
termination
  by (relation "measure (\<lambda>(env, maxRetries, cur, attempt, json, reqs, dls).
                  nat (maxRetries - int attempt))") auto

declare retry_loop.simps [simp del]

text \<open>
  The test after the retry loop, \<open>!json || !Array.isArray(json.data)\<close>: the data
  array of the page, or \<open>None\<close> when the page is given up.
\<close>

definition page_data :: "jsval \<Rightarrow> json list option" where
  "page_data json =
     (if \<not> truthy json then None
      else (case get_prop json ''data'' of
              Returns (Some (JArr xs)) \<Rightarrow> Some xs
            | _ \<Rightarrow> None))"

text \<open>
  \<open>profile.attributes?.email?.toLowerCase().trim()\<close>: reading \<open>attributes\<close> of
  null throws; a missing or null \<open>attributes\<close> or \<open>email\<close> gives undefined; an
  email that is not a string has no \<open>toLowerCase\<close> to call.
\<close>

definition normalized_email :: "klaviyo \<Rightarrow> json \<Rightarrow> string option js" where
  "normalized_email env p =
     (case get_prop (Some p) ''attributes'' of
        Throws \<Rightarrow> Throws
      | Returns a \<Rightarrow>
          (case opt_prop a ''email'' of
             None \<Rightarrow> Returns None
           | Some JNull \<Rightarrow> Returns None
           | Some (JStr s) \<Rightarrow> Returns (Some (trim env (toLowerCase env s)))
           | Some v \<Rightarrow> Throws))"

text \<open>The \<open>for (const profile of json.data)\<close> loop.\<close>

fun page_loop ::
  "klaviyo \<Rightarrow> json list \<Rightarrow> profile list \<times> string set
     \<Rightarrow> (profile list \<times> string set) js" where
  "page_loop env [] acc = Returns acc"
| "page_loop env (p # ps) (profs, seen) =
     (case normalized_email env p of
        Throws \<Rightarrow> Throws
      | Returns None \<Rightarrow> page_loop env ps (profs, seen)
      | Returns (Some e) \<Rightarrow>
          if e \<noteq> [] \<and> e \<notin> seen then
            page_loop env ps
              (profs @ [\<lparr>email = e, profileId = opt_prop (Some p) ''id''\<rparr>], insert e seen)
          else page_loop env ps (profs, seen))"

text \<open>
  The end of an iteration: \<open>json.links?.next\<close> decides whether the loop goes on,
  after a 150 ms wait, with the cursor of the next link.
\<close>

definition next_link :: "json \<Rightarrow> jsval" where
  "next_link j = opt_prop (opt_prop (Some j) ''links'') ''next''"

definition advance :: "klaviyo \<Rightarrow> json \<Rightarrow> fstate \<Rightarrow> fstate" where
  "advance env j st =
     (if truthy (next_link j) then
        (case next_cursor env (the (next_link j)) of
           Throws \<Rightarrow> st\<lparr>status := BadCursor\<rparr>
         | Returns c \<Rightarrow> st\<lparr>cursor := c, delays := delays st @ [150]\<rparr>)
      else st\<lparr>status := EndOfPages\<rparr>)"

text \<open>
  One iteration of \<open>while (profiles.length < limit)\<close>, the loop test included. A
  state that has left the loop stays as it is. The snapshot write is taken to succeed.
  When the \<open>for\<close> loop throws, the function is rejected before the write; the state
  keeps the profiles of the last completed page.
\<close>

definition fetch_page :: "klaviyo \<Rightarrow> int \<Rightarrow> int \<Rightarrow> fstate \<Rightarrow> fstate" where
  "fetch_page env limit maxRetries st =
     (if status st \<noteq> Running then st
      else if \<not> int (length (profiles st)) < limit then st\<lparr>status := LimitReached\<rparr>
      else
        (case retry_loop env maxRetries (cursor st) 0 None (requests st) (delays st) of
           (json, attempt, reqs, dls) \<Rightarrow>
             let st1 = st\<lparr>requests := reqs, delays := dls\<rparr> in
             (case page_data json of
                None \<Rightarrow> st1\<lparr>status := Abandoned\<rparr>
              | Some data \<Rightarrow>
                  (case page_loop env data (profiles st, seenEmails st) of
                     Throws \<Rightarrow> st1\<lparr>status := Crashed\<rparr>
                   | Returns (profs, seen) \<Rightarrow>
                       advance env (the json)
                         (st1\<lparr>profiles := profs, seenEmails := seen, page := page st + 1,
                              disk := Some (slice0 profs limit),
                              fetched := fetched st @ data\<rparr>)))))"

text \<open>
  The state of \<open>fetchAllKlaviyoSegmentProfiles(limit, maxRetries)\<close> after at most
  \<open>n\<close> iterations of its outer loop. The loop may run for ever (a server that keeps
  sending a next link); a run that ends has a status other than \<open>Running\<close> from some
  \<open>n\<close> on.
\<close>

fun fetchAllKlaviyoSegmentProfiles :: "nat \<Rightarrow> klaviyo \<Rightarrow> int \<Rightarrow> int \<Rightarrow> fstate" where
  "fetchAllKlaviyoSegmentProfiles 0 env limit maxRetries = fetch_init"
| "fetchAllKlaviyoSegmentProfiles (Suc n) env limit maxRetries =
     fetch_page env limit maxRetries (fetchAllKlaviyoSegmentProfiles n env limit maxRetries)"


section \<open>The per-record enricher (the second program of src/unnamed/part_000)\<close>

text \<open>
  A file of newline-delimited JSON is the list of its lines, each taken as what
  \<open>JSON.parse\<close> makes of it: a line on which it throws is kept as its text, any
  other line as the value it parses to. The empty line is \<open>Unparseable []\<close>. A file
  that does not exist is \<open>None\<close>.
\<close>

datatype line = Unparseable string | Parsed json

type_synonym ndjson = "line list option"

text \<open>
  \<open>loadProcessedEmailsFromNDJSON(filePath)\<close>: the emails as an array in the order
  the \<open>Set\<close> received them, and the lines \<open>console.warn\<close> reported. Reading
  \<open>json.email\<close> of a line that parses to null throws inside the \<open>try\<close> and is
  reported like a line that does not parse.
\<close>

fun load_lines :: "line list \<Rightarrow> json list \<times> line list \<Rightarrow> json list \<times> line list" where
  "load_lines [] acc = acc"
| "load_lines (Unparseable s # ls) (emails, warned) =
     load_lines ls (emails, warned @ [Unparseable s])"
| "load_lines (Parsed j # ls) (emails, warned) =
     (case get_prop (Some j) ''email'' of
        Throws \<Rightarrow> load_lines ls (emails, warned @ [Parsed j])
      | Returns e \<Rightarrow>
          if truthy e then load_lines ls (set_add (the e) emails, warned)
          else load_lines ls (emails, warned))"

definition loadProcessedEmailsFromNDJSON :: "ndjson \<Rightarrow> json list \<times> line list" where
  "loadProcessedEmailsFromNDJSON file =
     (case file of
        None \<Rightarrow> ([], [])
      | Some ls \<Rightarrow> load_lines (filter (\<lambda>l. l \<noteq> Unparseable []) ls) ([], []))"

text \<open>
  The shop answers the \<open>n\<close>-th request of the run: the customer search for an email,
  the order list for a customer id.
\<close>

record shopify =
  customers_api :: "nat \<Rightarrow> string \<Rightarrow> response"
  orders_api :: "nat \<Rightarrow> jsval \<Rightarrow> response"

text \<open>
  What \<open>getShopifyCustomerIdByEmail\<close> returns for a response that is not a 429:
  the first customer when \<open>json.customers\<close> is truthy and its length is positive,
  null otherwise, also when the request, the body or a property read throws (the
  \<open>catch\<close> logs and falls through to \<open>return null\<close>).
\<close>

definition customer_of :: "response \<Rightarrow> jsval" where
  "customer_of r =
     (case r of
        NetworkError \<Rightarrow> Some JNull
      | Response st None \<Rightarrow> Some JNull
      | Response st (Some j) \<Rightarrow>
          (case get_prop (Some j) ''customers'' of
             Throws \<Rightarrow> Some JNull
           | Returns cs \<Rightarrow>
               if truthy cs \<and> gt_zero (js_length (the cs)) then js_index0 (the cs)
               else Some JNull))"

definition rate_limited :: "response \<Rightarrow> bool" where
  "rate_limited r = (case r of NetworkError \<Rightarrow> False | Response st b \<Rightarrow> st = 429)"

text \<open>
  \<open>getShopifyCustomerIdByEmail(email)\<close>, started when \<open>reqs\<close> requests have been
  made and \<open>dls\<close> lists the waits so far. On a 429 it waits 1000 ms and calls itself;
  nothing bounds the recursion, so the function is partial: \<open>None\<close> is the call that
  never returns. A call that returns gives the customer, the request count and the waits.
\<close>

partial_function (option) getShopifyCustomerIdByEmail ::
  "shopify \<Rightarrow> string \<Rightarrow> nat \<Rightarrow> nat list \<Rightarrow> (jsval \<times> nat \<times> nat list) option" where
  "getShopifyCustomerIdByEmail env e reqs dls =
     (if rate_limited (customers_api env reqs e)
      then getShopifyCustomerIdByEmail env e (reqs + 1) (dls @ [1000])
      else Some (customer_of (customers_api env reqs e), reqs + 1, dls))"

text \<open>
  \<open>getMostRecentOrder(customerId)\<close>: the summary of the first order, or null. There
  is no test of the status here. \<open>order.line_items[0]\<close> throws when the order or its
  \<open>line_items\<close> is null or undefined, into the \<open>catch\<close>.
\<close>

definition order_summary :: "jsval \<Rightarrow> jsval js" where
  "order_summary order =
     (case get_prop order ''line_items'' of
        Throws \<Rightarrow> Throws
      | Returns items \<Rightarrow>
          (case index0 items of
             Throws \<Rightarrow> Throws
           | Returns lineItem \<Rightarrow>
               (case get_prop order ''created_at'' of
                  Throws \<Rightarrow> Throws
                | Returns created \<Rightarrow>
                    Returns (Some (JObj
                      [(''title'', or_else (opt_prop lineItem ''title'') (JStr ''N/A'')),
                       (''sku'', or_else (opt_prop lineItem ''sku'') (JStr ''N/A'')),
                       (''orderDate'', or_else created (JStr ''N/A''))])))))"

definition getMostRecentOrder :: "shopify \<Rightarrow> jsval \<Rightarrow> nat \<Rightarrow> jsval" where
  "getMostRecentOrder env customerId reqs =
     (case orders_api env reqs customerId of
        NetworkError \<Rightarrow> Some JNull
      | Response st None \<Rightarrow> Some JNull
      | Response st (Some j) \<Rightarrow>
          (case get_prop (Some j) ''orders'' of
             Throws \<Rightarrow> Some JNull
           | Returns os \<Rightarrow>
               if truthy os \<and> gt_zero (js_length (the os)) then
                 (case order_summary (js_index0 (the os)) of
                    Throws \<Rightarrow> Some JNull
                  | Returns summary \<Rightarrow> summary)
               else Some JNull))"

text \<open>
  The enriched record as \<open>JSON.stringify\<close> writes it and \<open>JSON.parse\<close> reads it
  back: a \<open>profileId\<close> that is undefined is left out.
\<close>

definition enriched_record :: "profile \<Rightarrow> json \<Rightarrow> json" where
  "enriched_record p order =
     JObj ((case profileId p of None \<Rightarrow> [] | Some i \<Rightarrow> [(''profileId'', i)]) @
           [(''email'', JStr (email p)), (''mostRecentOrder'', order)])"

text \<open>
  \<open>saveEnrichedProfileIncrementally\<close> appends one line to the log, creating the
  file when it is missing.
\<close>

definition saveEnrichedProfileIncrementally :: "json \<Rightarrow> ndjson \<Rightarrow> ndjson" where
  "saveEnrichedProfileIncrementally r file =
     Some ((case file of None \<Rightarrow> [] | Some ls \<Rightarrow> ls) @ [Parsed r])"

record estate =
  enriched_file :: ndjson
  enrichedProfiles :: "json list"
  processedCount :: nat
  shop_requests :: nat
  shop_delays :: "nat list"

text \<open>
  The body of the \<open>for (const profile of profiles)\<close> loop of
  \<open>enrichKlaviyoProfiles\<close>. The profiles are the entries of the snapshot the fetcher
  wrote, an email string and a profile id. \<open>processedEmails\<close> is the module-level
  array, loaded once; \<open>updateProcessedProfiles\<close> is a no-op and leaves it as it is.
  Both lookups catch their own errors and the append goes through a write stream, so
  nothing inside the \<open>try\<close> throws and the loop's own \<open>catch\<close> (which would
  count the profile as processed too) is not entered. \<open>None\<close> is the iteration that
  never ends, inside the customer lookup.
\<close>

definition enrich_profile :: "shopify \<Rightarrow> json list \<Rightarrow> profile \<Rightarrow> estate \<Rightarrow> estate option" where
  "enrich_profile env processedEmails p st =
     (if js_includes processedEmails (JStr (email p)) then
        Some (st\<lparr>processedCount := processedCount st + 1\<rparr>)
      else
        (case getShopifyCustomerIdByEmail env (email p) (shop_requests st) (shop_delays st) of
           None \<Rightarrow> None
         | Some (customer, reqs, dls) \<Rightarrow>
             if \<not> truthy customer then
               Some (st\<lparr>processedCount := processedCount st + 1,
                        shop_requests := reqs, shop_delays := dls\<rparr>)
             else
               let order = getMostRecentOrder env (opt_prop customer ''id'') reqs in
               if \<not> truthy order then
                 Some (st\<lparr>processedCount := processedCount st + 1,
                          shop_requests := reqs + 1, shop_delays := dls\<rparr>)
               else
                 Some (st\<lparr>enriched_file :=
                            saveEnrichedProfileIncrementally (enriched_record p (the order))
                              (enriched_file st),
                          enrichedProfiles :=
                            enrichedProfiles st @ [enriched_record p (the order)],
                          processedCount := processedCount st + 1,
                          shop_requests := reqs + 1, shop_delays := dls\<rparr>)))"

fun enrichKlaviyoProfiles ::
  "shopify \<Rightarrow> json list \<Rightarrow> profile list \<Rightarrow> estate \<Rightarrow> estate option" where
  "enrichKlaviyoProfiles env processedEmails [] st = Some st"
| "enrichKlaviyoProfiles env processedEmails (p # ps) st =
     (case enrich_profile env processedEmails p st of
        None \<Rightarrow> None
      | Some st' \<Rightarrow> enrichKlaviyoProfiles env processedEmails ps st')"

text \<open>
  A whole run on a log file: the module loads \<open>processedEmails\<close> from the log, then
  \<open>main\<close> enriches the profiles of the snapshot.
\<close>

definition enrich_init :: "ndjson \<Rightarrow> estate" where
  "enrich_init file = \<lparr>enriched_file = file, enrichedProfiles = [], processedCount = 0,
                        shop_requests = 0, shop_delays = []\<rparr>"

definition enrich_run :: "shopify \<Rightarrow> ndjson \<Rightarrow> profile list \<Rightarrow> estate option" where
  "enrich_run env file ps =
     enrichKlaviyoProfiles env (fst (loadProcessedEmailsFromNDJSON file)) ps (enrich_init file)"

text \<open>
  The email of a record of the log: the \<open>email\<close> property of a line that parses to
  an object. The records of a log for an email are the lines that carry it.
\<close>

definition line_email :: "line \<Rightarrow> jsval" where
  "line_email l = (case l of Unparseable s \<Rightarrow> None | Parsed j \<Rightarrow> opt_prop (Some j) ''email'')"

definition log_lines :: "ndjson \<Rightarrow> line list" where
  "log_lines file = (case file of None \<Rightarrow> [] | Some ls \<Rightarrow> ls)"

definition records_for :: "json \<Rightarrow> ndjson \<Rightarrow> line list" where
  "records_for e file = filter (\<lambda>l. line_email l = Some e) (log_lines file)"


section \<open>The chart aggregator (generatePieChart.mjs)\<close>

text \<open>
  \<open>String(v)\<close> as a template literal applies it: strings as they are, integers in
  decimal (as JavaScript prints them up to 21 digits), arrays joined with commas (null
  elements empty), any object as \<open>[object Object]\<close>.
\<close>

fun digits :: "nat \<Rightarrow> string" where
  "digits n =
     (if n < 10 then [''0123456789'' ! n] else digits (n div 10) @ [''0123456789'' ! (n mod 10)])"

definition show_int :: "int \<Rightarrow> string" where
  "show_int i = (if i < 0 then CHR ''-'' # digits (nat (- i)) else digits (nat i))"

fun join_commas :: "string list \<Rightarrow> string" where
  "join_commas [] = []"
| "join_commas [s] = s"
| "join_commas (s # t # ss) = s @ '','' @ join_commas (t # ss)"

fun js_toString :: "json \<Rightarrow> string" where
  "js_toString JNull = ''null''"
| "js_toString (JBool b) = (if b then ''true'' else ''false'')"
| "js_toString (JNum n) = show_int n"
| "js_toString (JStr s) = s"
| "js_toString (JArr xs) =
     join_commas (map (\<lambda>x. if x = JNull then [] else js_toString x) xs)"
| "js_toString (JObj kv) = ''[object Object]''"

text \<open>
  \<open>counts\<close> is an object used as a dictionary; \<open>Object.entries\<close> lists its keys in
  the order they were first set (no key here is an array index: each contains
  \<open>(SKU:\<close>). \<open>counts[key] = (counts[key] || 0) + 1\<close>:
\<close>

fun bump :: "string \<Rightarrow> (string \<times> nat) list \<Rightarrow> (string \<times> nat) list" where
  "bump k [] = [(k, 1)]"
| "bump k ((k', c) # r) = (if k = k' then (k', c + 1) # r else (k', c) # bump k r)"

definition chart_key :: "json \<Rightarrow> json \<Rightarrow> string" where
  "chart_key title sku = js_toString title @ '' (SKU: '' @ js_toString sku @ '')''"

text \<open>
  The key a line contributes, if any: a blank line is skipped, a line that does not
  parse is swallowed by the empty \<open>catch\<close>, and a record counts when
  \<open>order?.title && order?.sku\<close> is truthy.
\<close>

definition line_key :: "line \<Rightarrow> string option" where
  "line_key l =
     (case l of
        Unparseable s \<Rightarrow> None
      | Parsed j \<Rightarrow>
          (let order = opt_prop (Some j) ''mostRecentOrder'' in
           if truthy (opt_prop order ''title'') \<and> truthy (opt_prop order ''sku'')
           then Some (chart_key (the (opt_prop order ''title'')) (the (opt_prop order ''sku'')))
           else None))"

text \<open>
  \<open>processNDJSON\<close>: the loop over the lines of the log, giving \<open>counts\<close> and
  \<open>totalProfiles\<close> (the number of lines read, blank and malformed ones included).
\<close>

fun count_lines :: "line list \<Rightarrow> (string \<times> nat) list \<times> nat \<Rightarrow> (string \<times> nat) list \<times> nat" where
  "count_lines [] acc = acc"
| "count_lines (l # ls) (counts, lineCount) =
     (case line_key l of
        None \<Rightarrow> count_lines ls (counts, lineCount + 1)
      | Some k \<Rightarrow> count_lines ls (bump k counts, lineCount + 1))"

definition processNDJSON :: "line list \<Rightarrow> (string \<times> nat) list \<times> nat" where
  "processNDJSON ls = count_lines ls ([], 0)"

text \<open>
  The head of \<open>createPieChart\<close>: the entries sorted by \<open>b[1] - a[1]\<close> (a stable
  sort, so equal counts keep their order) and cut to \<open>MAX_PRODUCTS\<close>.
\<close>

definition MAX_PRODUCTS :: nat where
  "MAX_PRODUCTS = 10"

definition top_products :: "(string \<times> nat) list \<Rightarrow> (string \<times> nat) list" where
  "top_products counts = take MAX_PRODUCTS (sort_key (\<lambda>(k, c). - int c) counts)"


section \<open>Notions the properties are stated with\<close>

text \<open>
  The emails a list of profile objects contributes: the normalized emails that are not
  empty.
\<close>

definition page_emails :: "klaviyo \<Rightarrow> json list \<Rightarrow> string set" where
  "page_emails env ds =
     {e. e \<noteq> [] \<and> (\<exists>p\<in>set ds. normalized_email env p = Returns (Some e))}"

text \<open>The email attribute of a profile object as the endpoint sent it.\<close>

definition email_attribute :: "json \<Rightarrow> jsval" where
  "email_attribute p = opt_prop (opt_prop (Some p) ''attributes'') ''email''"

text \<open>
  What holds of the fetcher's state between two iterations: the emails of the profiles
  are distinct, they are the set \<open>seenEmails\<close> and the emails of the objects gone
  through, and the snapshot, once a page has been written, is the profile list cut at
  the limit.
\<close>

definition fetch_inv :: "klaviyo \<Rightarrow> int \<Rightarrow> fstate \<Rightarrow> bool" where
  "fetch_inv env limit st =
     (distinct (map email (profiles st)) \<and>
      seenEmails st = set (map email (profiles st)) \<and>
      set (map email (profiles st)) = page_emails env (fetched st) \<and>
      (disk st = None \<and> profiles st = [] \<and> page st = 1 \<or>
       disk st = Some (slice0 (profiles st) limit) \<and> 1 < page st \<and> 0 < limit))"

text \<open>The lines of the log the loader warns about, and the lines that parse.\<close>

definition warns :: "line \<Rightarrow> bool" where
  "warns l = (case l of Unparseable s \<Rightarrow> True | Parsed j \<Rightarrow> j = JNull)"

definition is_parsed :: "line \<Rightarrow> bool" where
  "is_parsed l = (case l of Unparseable s \<Rightarrow> False | Parsed j \<Rightarrow> True)"

text \<open>How many lines of a log carry a chart key.\<close>

definition occurrences :: "string \<Rightarrow> line list \<Rightarrow> nat" where
  "occurrences k ls = length (filter (\<lambda>l. line_key l = Some k) ls)"


section \<open>Example data\<close>

text \<open>
  On strings of ASCII letters, digits, punctuation and blanks, as the examples use them,
  the platform's \<open>toLowerCase\<close> folds the capitals A to Z and \<open>trim\<close> strips tab,
  line feed, vertical tab, form feed, carriage return and space from both ends.
\<close>

definition ascii_lower_char :: "char \<Rightarrow> char" where
  "ascii_lower_char c =
     (case map_of (zip ''ABCDEFGHIJKLMNOPQRSTUVWXYZ'' ''abcdefghijklmnopqrstuvwxyz'') c of
        None \<Rightarrow> c
      | Some d \<Rightarrow> d)"

definition ascii_toLowerCase :: "string \<Rightarrow> string" where
  "ascii_toLowerCase s = map ascii_lower_char s"

definition ascii_space :: "char \<Rightarrow> bool" where
  "ascii_space c = (c \<in> set [CHR 0x09, CHR 0x0A, CHR 0x0B, CHR 0x0C, CHR 0x0D, CHR '' ''])"

definition ascii_trim :: "string \<Rightarrow> string" where
  "ascii_trim s = rev (dropWhile ascii_space (rev (dropWhile ascii_space s)))"

definition api_profile :: "string \<Rightarrow> json \<Rightarrow> json" where
  "api_profile i e =
     JObj [(''type'', JStr ''profile''), (''id'', JStr i), (''attributes'', JObj [(''email'', e)])]"

definition next_url :: string where
  "next_url = ''https://a.klaviyo.com/api/segments/S/profiles/?page%5Bcursor%5D=c2''"

definition url_c2 :: "json \<Rightarrow> string option js" where
  "url_c2 j = (if j = JStr next_url then Returns (Some ''c2'') else Throws)"

definition page_one :: json where
  "page_one =
     JObj [(''data'', JArr [api_profile ''01'' (JStr '' Ann@X.com ''),
                            api_profile ''02'' (JStr ''ann@x.com''),
                            api_profile ''03'' JNull,
                            api_profile ''04'' (JStr ''bob@x.com'')]),
           (''links'', JObj [(''next'', JStr next_url)])]"

definition page_two :: json where
  "page_two =
     JObj [(''data'', JArr [api_profile ''05'' (JStr ''BOB@x.com''),
                            api_profile ''06'' (JStr ''  ''),
                            api_profile ''07'' (JStr ''cy@x.com'')]),
           (''links'', JObj [(''next'', JNull)])]"

text \<open>A page with a profile whose email is a number.\<close>

definition page_odd :: json where
  "page_odd =
     JObj [(''data'', JArr [api_profile ''01'' (JStr ''ann@x.com''), api_profile ''08'' (JNum 5)]),
           (''links'', JObj [(''next'', JNull)])]"

text \<open>
  A segment endpoint that serves the two pages, one whose first two answers fail and
  which fails for good after the first page, and one that serves the odd page.
\<close>

definition steady_klaviyo :: klaviyo where
  "steady_klaviyo =
     \<lparr>segment_api = (\<lambda>n c. if c = None then Response 200 (Some page_one)
                            else Response 200 (Some page_two)),
      next_cursor = url_c2, toLowerCase = ascii_toLowerCase, trim = ascii_trim\<rparr>"

definition flaky_klaviyo :: klaviyo where
  "flaky_klaviyo =
     \<lparr>segment_api = (\<lambda>n c. if n = 0 then NetworkError
                            else if n = 1 then Response 200 (Some (JObj [(''errors'', JArr [])]))
                            else if n = 2 then Response 200 (Some page_one)
                            else NetworkError),
      next_cursor = url_c2, toLowerCase = ascii_toLowerCase, trim = ascii_trim\<rparr>"

definition odd_klaviyo :: klaviyo where
  "odd_klaviyo =
     \<lparr>segment_api = (\<lambda>n c. Response 200 (Some page_odd)),
      next_cursor = url_c2, toLowerCase = ascii_toLowerCase, trim = ascii_trim\<rparr>"

definition ann :: profile where
  "ann = \<lparr>email = ''ann@x.com'', profileId = Some (JStr ''01'')\<rparr>"

definition bob :: profile where
  "bob = \<lparr>email = ''bob@x.com'', profileId = Some (JStr ''04'')\<rparr>"

definition cy :: profile where
  "cy = \<lparr>email = ''cy@x.com'', profileId = Some (JStr ''07'')\<rparr>"

definition ann_again :: profile where
  "ann_again = \<lparr>email = ''ann@x.com'', profileId = Some (JStr ''02'')\<rparr>"

text \<open>Shops: one that knows every customer and order, and variations of it.\<close>

definition found_customer :: "string \<Rightarrow> response" where
  "found_customer e =
     Response 200 (Some (JObj [(''customers'', JArr [JObj [(''id'', JNum 7), (''email'', JStr e)]])]))"

definition found_order :: response where
  "found_order =
     Response 200 (Some (JObj [(''orders'', JArr
       [JObj [(''id'', JNum 1001), (''created_at'', JStr ''2025-01-02''),
              (''line_items'', JArr [JObj [(''title'', JStr ''A''), (''sku'', JStr ''1'')]])]])]))"

definition summary_A :: json where
  "summary_A = JObj [(''title'', JStr ''A''), (''sku'', JStr ''1''), (''orderDate'', JStr ''2025-01-02'')]"

definition good_shop :: shopify where
  "good_shop = \<lparr>customers_api = (\<lambda>n e. found_customer e), orders_api = (\<lambda>n c. found_order)\<rparr>"

definition limited_shop :: shopify where
  "limited_shop =
     \<lparr>customers_api = (\<lambda>n e. if n = 0 then Response 429 None else found_customer e),
      orders_api = (\<lambda>n c. found_order)\<rparr>"

definition busy_shop :: shopify where
  "busy_shop = \<lparr>customers_api = (\<lambda>n e. Response 429 None), orders_api = (\<lambda>n c. found_order)\<rparr>"

definition empty_shop :: shopify where
  "empty_shop =
     \<lparr>customers_api = (\<lambda>n e. Response 200 (Some (JObj [(''customers'', JArr [])]))),
      orders_api = (\<lambda>n c. found_order)\<rparr>"

definition orderless_shop :: shopify where
  "orderless_shop =
     \<lparr>customers_api = (\<lambda>n e. found_customer e),
      orders_api = (\<lambda>n c. Response 200 (Some (JObj [(''orders'', JArr [])])))\<rparr>"

text \<open>A log with a record for ann, a truncated line, an empty line and a null.\<close>

definition broken_text :: string where
  "broken_text = ''{email:''"

definition demo_log :: "line list" where
  "demo_log = [Parsed (enriched_record ann summary_A), Unparseable broken_text, Unparseable [],
               Parsed JNull, Parsed (JObj [(''email'', JStr [])]),
               Parsed (enriched_record cy summary_A)]"

text \<open>An enriched record whose order summary has the given title and SKU.\<close>

definition order_record :: "string \<Rightarrow> string \<Rightarrow> line" where
  "order_record t s =
     Parsed (JObj [(''profileId'', JStr ''01''), (''email'', JStr ''ann@x.com''),
                   (''mostRecentOrder'',
                      JObj [(''title'', JStr t), (''sku'', JStr s), (''orderDate'', JStr ''N/A'')])])"


text \<open>A log for the chart, and counts of eleven products.\<close>

definition mixed_log :: "line list" where
  "mixed_log = [order_record ''B'' ''2'', order_record ''A'' ''1'', Unparseable broken_text,
                order_record ''A'' ''1'', Unparseable [], order_record ''A'' ''1'']"

definition eleven_products :: "(string \<times> nat) list" where
  "eleven_products =
     [(''a'', 1), (''b'', 2), (''c'', 3), (''d'', 4), (''e'', 5), (''f'', 6), (''g'', 7),
      (''h'', 8), (''i'', 9), (''j'', 10), (''k'', 11)]"


section \<open>The fetcher: lemmas\<close>

lemma page_loop_inv:
  "page_loop env ds (ps, seen) = Returns (ps', seen') \<Longrightarrow>
     prefix ps ps' \<and>
     (seen = set (map email ps) \<longrightarrow> seen' = set (map email ps')) \<and>
     (seen = set (map email ps) \<and> distinct (map email ps) \<longrightarrow> distinct (map email ps')) \<and>
     seen' = seen \<union> page_emails env ds \<and>
     (\<forall>q\<in>set ps'. q \<in> set ps \<or> email q \<in> page_emails env ds)"
proof (induction ds arbitrary: ps seen)
  case Nil
  then show ?case by (simp add: page_emails_def)
next
  case (Cons p ds)
  show ?case
  proof (cases "normalized_email env p")
    case Throws
    with Cons.prems show ?thesis by simp
  next
    case (Returns r)
    show ?thesis
    proof (cases r)
      case None
      with Returns Cons.prems have "page_loop env ds (ps, seen) = Returns (ps', seen')" by simp
      from Cons.IH[OF this] Returns None show ?thesis
        by (auto simp: page_emails_def)
    next
      case (Some e)
      show ?thesis
      proof (cases "e \<noteq> [] \<and> e \<notin> seen")
        case True
        let ?q = "\<lparr>email = e, profileId = opt_prop (Some p) ''id''\<rparr>"
        from True Returns Some Cons.prems
        have "page_loop env ds (ps @ [?q], insert e seen) = Returns (ps', seen')" by simp
        from Cons.IH[OF this] True Returns Some show ?thesis
          by (auto simp: page_emails_def dest: append_prefixD)
      next
        case False
        with Returns Some Cons.prems have "page_loop env ds (ps, seen) = Returns (ps', seen')"
          by auto
        from Cons.IH[OF this] False Returns Some show ?thesis
          by (auto simp: page_emails_def)
      qed
    qed
  qed
qed


lemma advance_fields [simp]:
  "profiles (advance env j st) = profiles st"
  "seenEmails (advance env j st) = seenEmails st"
  "page (advance env j st) = page st"
  "disk (advance env j st) = disk st"
  "fetched (advance env j st) = fetched st"
  "requests (advance env j st) = requests st"
  by (simp_all add: advance_def split: js.splits)

lemma page_emails_append: "page_emails env (xs @ ys) = page_emails env xs \<union> page_emails env ys"
  by (auto simp: page_emails_def)

lemma fetch_page_cases:
  fixes st :: fstate
  obtains (stopped) "status st \<noteq> Running" "fetch_page env limit maxRetries st = st"
  | (limit) "status st = Running" "\<not> int (length (profiles st)) < limit"
      "fetch_page env limit maxRetries st = st\<lparr>status := LimitReached\<rparr>"
  | (abandoned) json attempt reqs dls where "status st = Running" "int (length (profiles st)) < limit"
      "retry_loop env maxRetries (cursor st) 0 None (requests st) (delays st) = (json, attempt, reqs, dls)"
      "page_data json = None"
      "fetch_page env limit maxRetries st = st\<lparr>requests := reqs, delays := dls, status := Abandoned\<rparr>"
  | (crashed) json attempt reqs dls data where "status st = Running" "int (length (profiles st)) < limit"
      "retry_loop env maxRetries (cursor st) 0 None (requests st) (delays st) = (json, attempt, reqs, dls)"
      "page_data json = Some data" "page_loop env data (profiles st, seenEmails st) = Throws"
      "fetch_page env limit maxRetries st = st\<lparr>requests := reqs, delays := dls, status := Crashed\<rparr>"
  | (page) json attempt reqs dls data profs seen where "status st = Running" "int (length (profiles st)) < limit"
      "retry_loop env maxRetries (cursor st) 0 None (requests st) (delays st) = (json, attempt, reqs, dls)"
      "page_data json = Some data" "page_loop env data (profiles st, seenEmails st) = Returns (profs, seen)"
      "fetch_page env limit maxRetries st =
         advance env (the json) (st\<lparr>requests := reqs, delays := dls, profiles := profs, seenEmails := seen,
            page := page st + 1, disk := Some (slice0 profs limit), fetched := fetched st @ data\<rparr>)"
proof (cases "status st \<noteq> Running")
  case True
  then show ?thesis using stopped by (simp add: fetch_page_def)
next
  case run: False
  show ?thesis
  proof (cases "int (length (profiles st)) < limit")
    case False
    then show ?thesis using run limit by (simp add: fetch_page_def)
  next
    case lt: True
    obtain json attempt reqs dls where
      r: "retry_loop env maxRetries (cursor st) 0 None (requests st) (delays st) = (json, attempt, reqs, dls)"
      by (metis prod_cases4)
    show ?thesis
    proof (cases "page_data json")
      case None
      then show ?thesis using run lt r abandoned by (simp add: fetch_page_def)
    next
      case (Some data)
      show ?thesis
      proof (cases "page_loop env data (profiles st, seenEmails st)")
        case Throws
        then show ?thesis using run lt r Some crashed by (simp add: fetch_page_def)
      next
        case (Returns acc)
        obtain profs seen where "acc = (profs, seen)" by (cases acc)
        then show ?thesis using run lt r Some Returns page[of json attempt reqs dls data profs seen]
          by (simp add: fetch_page_def)
      qed
    qed
  qed
qed

lemma fetch_page_inv:
  assumes "fetch_inv env limit st"
  shows "fetch_inv env limit (fetch_page env limit maxRetries st)"
proof (cases rule: fetch_page_cases[where st = st and env = env and limit = limit and maxRetries = maxRetries])
  case (page json attempt reqs dls data profs seen)
  from page_loop_inv[OF page(5)] assms
  have "distinct (map email profs)" "seen = set (map email profs)"
    "seen = seenEmails st \<union> page_emails env data"
    by (auto simp: fetch_inv_def)
  moreover from page(2) have "0 < limit" by linarith
  ultimately show ?thesis using assms page(6)
    by (auto simp: fetch_inv_def page_emails_append)
qed (use assms in \<open>auto simp: fetch_inv_def\<close>)

lemma fetch_all_inv: "fetch_inv env limit (fetchAllKlaviyoSegmentProfiles n env limit maxRetries)"
proof (induction n)
  case 0
  show ?case by (simp add: fetch_inv_def fetch_init_def page_emails_def)
next
  case (Suc n)
  then show ?case by (simp add: fetch_page_inv)
qed

lemma fetch_page_prefix: "prefix (profiles st) (profiles (fetch_page env limit maxRetries st))"
proof (cases rule: fetch_page_cases[where st = st and env = env and limit = limit and maxRetries = maxRetries])
  case (page json attempt reqs dls data profs seen)
  from page_loop_inv[OF page(5)] page(6) show ?thesis by simp
qed simp_all

lemma slice0_take: "0 \<le> e \<Longrightarrow> slice0 xs e = take (nat e) xs"
  by (auto simp: slice0_def Let_def min_def)

lemma fetch_page_stopped: "status st \<noteq> Running \<Longrightarrow> fetch_page env limit maxRetries st = st"
  by (simp add: fetch_page_def)


lemma valid_payload_page_data: "valid_payload j \<longleftrightarrow> page_data (Some j) \<noteq> None"
  by (cases j) (auto simp: valid_payload_def page_data_def split: option.splits json.splits)

lemma retry_loop_done:
  "\<not> int attempt < maxRetries \<Longrightarrow>
     retry_loop env maxRetries cur attempt json reqs dls = (json, attempt, reqs, dls)"
  by (subst retry_loop.simps) simp

lemma retry_loop_success:
  "int attempt < maxRetries \<Longrightarrow> \<not> failed_attempt (segment_api env reqs (url_cursor cur)) \<Longrightarrow>
     \<exists>s j. segment_api env reqs (url_cursor cur) = Response s (Some j) \<and> valid_payload j \<and>
       retry_loop env maxRetries cur attempt json reqs dls = (Some j, attempt, reqs + 1, dls)"
  by (subst retry_loop.simps)
     (auto simp: failed_attempt_def split: response.splits option.splits)

lemma retry_loop_step:
  "int attempt < maxRetries \<Longrightarrow> failed_attempt (segment_api env reqs (url_cursor cur)) \<Longrightarrow>
     page_data json = None \<Longrightarrow>
     \<exists>json'. page_data json' = None \<and>
       retry_loop env maxRetries cur attempt json reqs dls =
       retry_loop env maxRetries cur (attempt + 1) json' (reqs + 1) (dls @ [500 * (attempt + 1)])"
  by (subst retry_loop.simps)
     (auto simp: failed_attempt_def valid_payload_page_data split: response.splits option.splits)

lemma retry_loop_failures:
  "(\<forall>i<k. failed_attempt (segment_api env (reqs + i) (url_cursor cur))) \<Longrightarrow>
   int (attempt + k) \<le> maxRetries \<Longrightarrow> page_data json = None \<Longrightarrow>
     \<exists>json'. page_data json' = None \<and>
       retry_loop env maxRetries cur attempt json reqs dls =
       retry_loop env maxRetries cur (attempt + k) json' (reqs + k)
         (dls @ map (\<lambda>a. 500 * a) [attempt + 1 ..< attempt + k + 1])"
proof (induction k arbitrary: attempt json reqs dls)
  case 0
  then show ?case by auto
next
  case (Suc k)
  from Suc.prems(1) have first: "failed_attempt (segment_api env reqs (url_cursor cur))"
    by (metis add.right_neutral zero_less_Suc)
  from Suc.prems(2) have lt: "int attempt < maxRetries" by simp
  from retry_loop_step[OF lt first Suc.prems(3)] obtain json1 where
    j1: "page_data json1 = None" and
    s1: "retry_loop env maxRetries cur attempt json reqs dls =
         retry_loop env maxRetries cur (attempt + 1) json1 (reqs + 1) (dls @ [500 * (attempt + 1)])"
    by blast
  have rest: "\<forall>i<k. failed_attempt (segment_api env (reqs + 1 + i) (url_cursor cur))"
  proof (intro allI impI)
    fix i assume "i < k"
    then have "Suc i < Suc k" by simp
    with Suc.prems(1) have "failed_attempt (segment_api env (reqs + Suc i) (url_cursor cur))" by blast
    then show "failed_attempt (segment_api env (reqs + 1 + i) (url_cursor cur))" by simp
  qed
  from Suc.prems(2) have le: "int (attempt + 1 + k) \<le> maxRetries" by simp
  from Suc.IH[OF rest le j1, of "dls @ [500 * (attempt + 1)]"] obtain json' where
    j': "page_data json' = None" and
    s2: "retry_loop env maxRetries cur (attempt + 1) json1 (reqs + 1) (dls @ [500 * (attempt + 1)]) =
         retry_loop env maxRetries cur (attempt + 1 + k) json' (reqs + 1 + k)
           ((dls @ [500 * (attempt + 1)]) @ map (\<lambda>a. 500 * a) [attempt + 1 + 1 ..< attempt + 1 + k + 1])"
    by blast
  have "[attempt + 1 ..< attempt + Suc k + 1] = (attempt + 1) # [attempt + 1 + 1 ..< attempt + 1 + k + 1]"
    by (simp add: upt_conv_Cons)
  with s1 s2 j' show ?case by (intro exI[of _ json']) simp
qed

lemma retry_loop_recovers:
  assumes "\<forall>i<k. failed_attempt (segment_api env (reqs + i) (url_cursor cur))"
    and "int k < maxRetries"
    and "\<not> failed_attempt (segment_api env (reqs + k) (url_cursor cur))"
  shows "\<exists>s j. segment_api env (reqs + k) (url_cursor cur) = Response s (Some j) \<and> valid_payload j \<and>
           retry_loop env maxRetries cur 0 None reqs dls =
           (Some j, k, reqs + k + 1, dls @ map (\<lambda>a. 500 * a) [1 ..< k + 1])"
proof -
  have p0: "page_data None = None" by (simp add: page_data_def)
  from assms(2) have le: "int (0 + k) \<le> maxRetries" by simp
  from retry_loop_failures[OF assms(1) le p0, of dls] obtain json' where
    s1: "retry_loop env maxRetries cur 0 None reqs dls =
         retry_loop env maxRetries cur k json' (reqs + k) (dls @ map (\<lambda>a. 500 * a) [1 ..< k + 1])"
    by auto
  from retry_loop_success[OF assms(2) assms(3)] s1 show ?thesis by auto
qed

lemma retry_loop_exhausts:
  assumes "\<forall>i<nat maxRetries. failed_attempt (segment_api env (reqs + i) (url_cursor cur))"
  shows "\<exists>json. page_data json = None \<and>
           retry_loop env maxRetries cur 0 None reqs dls =
           (json, nat maxRetries, reqs + nat maxRetries,
            dls @ map (\<lambda>a. 500 * a) [1 ..< nat maxRetries + 1])"
proof -
  have p0: "page_data None = None" by (simp add: page_data_def)
  have le: "int (0 + nat maxRetries) \<le> maxRetries \<or> maxRetries < 0" by simp
  show ?thesis
  proof (cases "maxRetries < 0")
    case True
    then show ?thesis using p0 by (simp add: retry_loop_done)
  next
    case False
    then have le: "int (0 + nat maxRetries) \<le> maxRetries" by simp
    from retry_loop_failures[OF assms le p0, of dls] obtain json' where
      "page_data json' = None"
      "retry_loop env maxRetries cur 0 None reqs dls =
         retry_loop env maxRetries cur (nat maxRetries) json' (reqs + nat maxRetries)
           (dls @ map (\<lambda>a. 500 * a) [1 ..< nat maxRetries + 1])"
      by auto
    then show ?thesis using False by (auto simp: retry_loop_done)
  qed
qed

lemma fetch_all_stopped:
  "status (fetchAllKlaviyoSegmentProfiles n env limit maxRetries) \<noteq> Running \<Longrightarrow>
     fetchAllKlaviyoSegmentProfiles (n + m) env limit maxRetries =
     fetchAllKlaviyoSegmentProfiles n env limit maxRetries"
  by (induction m) (simp_all add: fetch_page_stopped)

lemma fetch_page_abandons:
  fixes st :: fstate
  assumes "status st = Running" "int (length (profiles st)) < limit"
    and "\<forall>i<nat maxRetries. failed_attempt (segment_api env (requests st + i) (url_cursor (cursor st)))"
  shows "fetch_page env limit maxRetries st =
           st\<lparr>requests := requests st + nat maxRetries,
              delays := delays st @ map (\<lambda>a. 500 * a) [1 ..< nat maxRetries + 1],
              status := Abandoned\<rparr>"
proof -
  from retry_loop_exhausts[OF assms(3), of "delays st"] obtain json where
    "page_data json = None"
    "retry_loop env maxRetries (cursor st) 0 None (requests st) (delays st) =
       (json, nat maxRetries, requests st + nat maxRetries,
        delays st @ map (\<lambda>a. 500 * a) [1 ..< nat maxRetries + 1])"
    by blast
  with assms(1,2) show ?thesis by (simp add: fetch_page_def)
qed


lemma normalized_email_Some:
  "normalized_email env p = Returns (Some e) \<Longrightarrow>
     \<exists>raw. email_attribute p = Some (JStr raw) \<and> e = trim env (toLowerCase env raw)"
  by (cases p)
     (auto simp: normalized_email_def email_attribute_def split: js.splits option.splits json.splits)

lemma normalized_email_string:
  "p \<noteq> JNull \<Longrightarrow> email_attribute p = Some (JStr raw) \<Longrightarrow>
     normalized_email env p = Returns (Some (trim env (toLowerCase env raw)))"
  by (cases p) (auto simp: normalized_email_def email_attribute_def)

lemma normalized_email_missing:
  "p \<noteq> JNull \<Longrightarrow> email_attribute p = None \<or> email_attribute p = Some JNull \<Longrightarrow>
     normalized_email env p = Returns None"
  by (cases p) (auto simp: normalized_email_def email_attribute_def)

lemma page_loop_drop:
  "normalized_email env p = Returns None \<or> normalized_email env p = Returns (Some []) \<Longrightarrow>
     page_loop env (p # ds) (profs, seen) = page_loop env ds (profs, seen)"
  by auto


lemma prefix_take_both: "prefix xs ys \<Longrightarrow> prefix (take k xs) (take k ys)"
  by (auto simp: prefix_def)

subsection \<open>The example runs, evaluated\<close>

lemmas fetch_eval =
  fetch_page_def fetch_init_def retry_loop.simps page_data_def valid_payload_def
  normalized_email_def ascii_trim_def ascii_toLowerCase_def ascii_lower_char_def
  ascii_space_def slice0_def advance_def next_link_def url_cursor_def api_profile_def
  page_one_def page_two_def page_odd_def next_url_def url_c2_def failed_attempt_def
  ann_def bob_def cy_def

lemma steady_first_page:
  "fetchAllKlaviyoSegmentProfiles (Suc 0) steady_klaviyo 3 3 =
     \<lparr>profiles = [ann, bob], seenEmails = {''ann@x.com'', ''bob@x.com''},
      cursor = Some ''c2'', page = 2, disk = Some [ann, bob], requests = 1, delays = [150],
      fetched = [api_profile ''01'' (JStr '' Ann@X.com ''), api_profile ''02'' (JStr ''ann@x.com''),
                 api_profile ''03'' JNull, api_profile ''04'' (JStr ''bob@x.com'')],
      status = Running\<rparr>"
  by (simp add: fetch_eval steady_klaviyo_def insert_commute)

lemma steady_second_page:
  "fetchAllKlaviyoSegmentProfiles (Suc (Suc 0)) steady_klaviyo 3 3 =
     \<lparr>profiles = [ann, bob, cy], seenEmails = {''ann@x.com'', ''bob@x.com'', ''cy@x.com''},
      cursor = Some ''c2'', page = 3, disk = Some [ann, bob, cy], requests = 2, delays = [150],
      fetched = [api_profile ''01'' (JStr '' Ann@X.com ''), api_profile ''02'' (JStr ''ann@x.com''),
                 api_profile ''03'' JNull, api_profile ''04'' (JStr ''bob@x.com''),
                 api_profile ''05'' (JStr ''BOB@x.com''), api_profile ''06'' (JStr ''  ''),
                 api_profile ''07'' (JStr ''cy@x.com'')],
      status = EndOfPages\<rparr>"
  by (simp add: fetch_eval steady_klaviyo_def insert_commute)

lemma steady_capped:
  "fetchAllKlaviyoSegmentProfiles (Suc 0) steady_klaviyo 1 3 =
     \<lparr>profiles = [ann, bob], seenEmails = {''ann@x.com'', ''bob@x.com''},
      cursor = Some ''c2'', page = 2, disk = Some [ann], requests = 1, delays = [150],
      fetched = [api_profile ''01'' (JStr '' Ann@X.com ''), api_profile ''02'' (JStr ''ann@x.com''),
                 api_profile ''03'' JNull, api_profile ''04'' (JStr ''bob@x.com'')],
      status = Running\<rparr>"
  by (simp add: fetch_eval steady_klaviyo_def insert_commute)


lemma odd_page_crashes:
  "fetchAllKlaviyoSegmentProfiles (Suc 0) odd_klaviyo 10 3 =
     \<lparr>profiles = [], seenEmails = {}, cursor = None, page = 1, disk = None, requests = 1,
      delays = [], fetched = [], status = Crashed\<rparr>"
  by (simp add: fetch_eval odd_klaviyo_def)

lemma flaky_first_page:
  "fetchAllKlaviyoSegmentProfiles (Suc 0) flaky_klaviyo 10 3 =
     \<lparr>profiles = [ann, bob], seenEmails = {''ann@x.com'', ''bob@x.com''},
      cursor = Some ''c2'', page = 2, disk = Some [ann, bob], requests = 3,
      delays = [500, 1000, 150],
      fetched = [api_profile ''01'' (JStr '' Ann@X.com ''), api_profile ''02'' (JStr ''ann@x.com''),
                 api_profile ''03'' JNull, api_profile ''04'' (JStr ''bob@x.com'')],
      status = Running\<rparr>"
  by (simp add: fetch_eval flaky_klaviyo_def insert_commute)


section \<open>Properties of the fetcher\<close>




text \<open>
  Claim C6. A page request that errors or returns a malformed payload is tried again, at
  most \<open>maxRetries\<close> requests in all for the page, and the fetcher waits 500 ms times the
  number of the failed attempt after each failure. If the first \<open>k < maxRetries\<close>
  requests fail and the next one succeeds, the page is taken from that answer after
  waits of 500, 1000, ..., 500 k. If all \<open>maxRetries\<close> requests fail, the retry loop
  ends without a page, and the fetch stops there: the run is abandoned with its profiles
  and snapshot as they were, and no later iteration changes anything.
\<close>

theorem fetcher_page_retries:
  "((\<forall>i<k. failed_attempt (segment_api env (reqs + i) (url_cursor cur))) \<and> int k < maxRetries \<and>
     \<not> failed_attempt (segment_api env (reqs + k) (url_cursor cur)) \<longrightarrow>
      (\<exists>s j. segment_api env (reqs + k) (url_cursor cur) = Response s (Some j) \<and> valid_payload j \<and>
         retry_loop env maxRetries cur 0 None reqs dls =
           (Some j, k, reqs + k + 1, dls @ map (\<lambda>a. 500 * a) [1 ..< k + 1]))) \<and>
   ((\<forall>i<nat maxRetries. failed_attempt (segment_api env (reqs + i) (url_cursor cur))) \<longrightarrow>
      (\<exists>json. page_data json = None \<and>
         retry_loop env maxRetries cur 0 None reqs dls =
           (json, nat maxRetries, reqs + nat maxRetries,
            dls @ map (\<lambda>a. 500 * a) [1 ..< nat maxRetries + 1]))) \<and>
   (let st = fetchAllKlaviyoSegmentProfiles n env limit maxRetries in
      status st = Running \<and> int (length (profiles st)) < limit \<and>
      (\<forall>i<nat maxRetries.
         failed_attempt (segment_api env (requests st + i) (url_cursor (cursor st)))) \<longrightarrow>
      (\<forall>m. fetchAllKlaviyoSegmentProfiles (Suc n + m) env limit maxRetries =
            st\<lparr>requests := requests st + nat maxRetries,
               delays := delays st @ map (\<lambda>a. 500 * a) [1 ..< nat maxRetries + 1],
               status := Abandoned\<rparr>))"
proof (intro conjI)
  show "(\<forall>i<k. failed_attempt (segment_api env (reqs + i) (url_cursor cur))) \<and> int k < maxRetries \<and>
     \<not> failed_attempt (segment_api env (reqs + k) (url_cursor cur)) \<longrightarrow>
      (\<exists>s j. segment_api env (reqs + k) (url_cursor cur) = Response s (Some j) \<and> valid_payload j \<and>
         retry_loop env maxRetries cur 0 None reqs dls =
           (Some j, k, reqs + k + 1, dls @ map (\<lambda>a. 500 * a) [1 ..< k + 1]))"
    using retry_loop_recovers by blast
  show "(\<forall>i<nat maxRetries. failed_attempt (segment_api env (reqs + i) (url_cursor cur))) \<longrightarrow>
      (\<exists>json. page_data json = None \<and>
         retry_loop env maxRetries cur 0 None reqs dls =
           (json, nat maxRetries, reqs + nat maxRetries,
            dls @ map (\<lambda>a. 500 * a) [1 ..< nat maxRetries + 1]))"
    using retry_loop_exhausts by blast
  show "let st = fetchAllKlaviyoSegmentProfiles n env limit maxRetries in
      status st = Running \<and> int (length (profiles st)) < limit \<and>
      (\<forall>i<nat maxRetries.
         failed_attempt (segment_api env (requests st + i) (url_cursor (cursor st)))) \<longrightarrow>
      (\<forall>m. fetchAllKlaviyoSegmentProfiles (Suc n + m) env limit maxRetries =
            st\<lparr>requests := requests st + nat maxRetries,
               delays := delays st @ map (\<lambda>a. 500 * a) [1 ..< nat maxRetries + 1],
               status := Abandoned\<rparr>)"
  proof (unfold Let_def, intro impI allI, elim conjE)
    fix m
    let ?st = "fetchAllKlaviyoSegmentProfiles n env limit maxRetries"
    assume a: "status ?st = Running" "int (length (profiles ?st)) < limit"
      "\<forall>i<nat maxRetries. failed_attempt (segment_api env (requests ?st + i) (url_cursor (cursor ?st)))"
    have s: "fetchAllKlaviyoSegmentProfiles (Suc n) env limit maxRetries =
        ?st\<lparr>requests := requests ?st + nat maxRetries,
               delays := delays ?st @ map (\<lambda>a. 500 * a) [1 ..< nat maxRetries + 1],
               status := Abandoned\<rparr>"
      using fetch_page_abandons[OF a] by simp
    then have "status (fetchAllKlaviyoSegmentProfiles (Suc n) env limit maxRetries) \<noteq> Running"
      by simp
    from fetch_all_stopped[OF this, of m] s
    show "fetchAllKlaviyoSegmentProfiles (Suc n + m) env limit maxRetries =
        ?st\<lparr>requests := requests ?st + nat maxRetries,
               delays := delays ?st @ map (\<lambda>a. 500 * a) [1 ..< nat maxRetries + 1],
               status := Abandoned\<rparr>"
      by simp
  qed
qed

text \<open>On the flaky endpoint: two failures, then the first page; then three failures and the end.\<close>

theorem fetcher_page_retries_witness:
  "retry_loop flaky_klaviyo 3 None 0 None 0 [] = (Some page_one, 2, 3, [500, 1000]) \<and>
   retry_loop flaky_klaviyo 3 (Some ''c2'') 0 None 3 [500, 1000, 150] =
     (None, 3, 6, [500, 1000, 150, 500, 1000, 1500]) \<and>
   status (fetchAllKlaviyoSegmentProfiles (Suc 0) flaky_klaviyo 10 3) = Running \<and>
   (\<forall>m. fetchAllKlaviyoSegmentProfiles (Suc (Suc 0) + m) flaky_klaviyo 10 3 =
     \<lparr>profiles = [ann, bob], seenEmails = {''ann@x.com'', ''bob@x.com''},
      cursor = Some ''c2'', page = 2, disk = Some [ann, bob], requests = 6,
      delays = [500, 1000, 150, 500, 1000, 1500],
      fetched = [api_profile ''01'' (JStr '' Ann@X.com ''), api_profile ''02'' (JStr ''ann@x.com''),
                 api_profile ''03'' JNull, api_profile ''04'' (JStr ''bob@x.com'')],
      status = Abandoned\<rparr>)"
proof -
  have up: "[1 ..< 3] = [1, 2::nat]" "[1 ..< 4] = [1, 2, 3::nat]"
    by (simp_all add: upt_conv_Cons)
  have resp: "\<And>n c. segment_api flaky_klaviyo n c =
      (if n = 0 then NetworkError
       else if n = 1 then Response 200 (Some (JObj [(''errors'', JArr [])]))
       else if n = 2 then Response 200 (Some page_one)
       else NetworkError)"
    by (simp add: flaky_klaviyo_def)
  have early: "\<forall>i<2. failed_attempt (segment_api flaky_klaviyo (0 + i) (url_cursor None))"
    by (simp add: resp less_Suc_eq numeral_2_eq_2 url_cursor_def failed_attempt_def
        valid_payload_def)
  have third: "\<not> failed_attempt (segment_api flaky_klaviyo (0 + 2) (url_cursor None))"
    by (simp add: resp url_cursor_def failed_attempt_def valid_payload_def page_one_def)
  have late: "\<forall>i<nat 3. failed_attempt (segment_api flaky_klaviyo (3 + i) (url_cursor (Some ''c2'')))"
    by (simp add: resp url_cursor_def failed_attempt_def)
  have a: "retry_loop flaky_klaviyo 3 None 0 None 0 [] = (Some page_one, 2, 3, [500, 1000])"
  proof -
    have h: "(\<forall>i<2. failed_attempt (segment_api flaky_klaviyo (0 + i) (url_cursor None))) \<and>
        int 2 < 3 \<and> \<not> failed_attempt (segment_api flaky_klaviyo (0 + 2) (url_cursor None))"
      using early third by simp
    from fetcher_page_retries [of 2 flaky_klaviyo 0 None 3 "[]" 0 10, THEN conjunct1, THEN mp, OF h]
    obtain s j where
      sj: "segment_api flaky_klaviyo (0 + 2) (url_cursor None) = Response s (Some j)" and
      r: "retry_loop flaky_klaviyo 3 None 0 None 0 [] =
            (Some j, 2, 0 + 2 + 1, [] @ map (\<lambda>a. 500 * a) [1 ..< 2 + 1])"
      by blast
    from sj have "j = page_one" by (simp add: resp url_cursor_def)
    with r show ?thesis by (simp add: upt_conv_Cons)
  qed
  have b: "retry_loop flaky_klaviyo 3 (Some ''c2'') 0 None 3 [500, 1000, 150] =
             (None, 3, 6, [500, 1000, 150, 500, 1000, 1500])"
  proof -
    from fetcher_page_retries [of 0 flaky_klaviyo 3 "Some ''c2''" 3 "[500, 1000, 150]" 0 10,
        THEN conjunct2, THEN conjunct1, THEN mp, OF late]
    obtain json where
      "retry_loop flaky_klaviyo 3 (Some ''c2'') 0 None 3 [500, 1000, 150] =
         (json, nat 3, 3 + nat 3, [500, 1000, 150] @ map (\<lambda>a. 500 * a) [1 ..< nat 3 + 1])"
      by blast
    moreover have "fst (retry_loop flaky_klaviyo 3 (Some ''c2'') 0 None 3 [500, 1000, 150]) = None"
      by (simp add: retry_loop.simps url_cursor_def resp)
    ultimately show ?thesis by (simp add: upt_conv_Cons)
  qed
  have run: "status (fetchAllKlaviyoSegmentProfiles (Suc 0) flaky_klaviyo 10 3) = Running"
    "int (length (profiles (fetchAllKlaviyoSegmentProfiles (Suc 0) flaky_klaviyo 10 3))) < 10"
    "requests (fetchAllKlaviyoSegmentProfiles (Suc 0) flaky_klaviyo 10 3) = 3"
    "cursor (fetchAllKlaviyoSegmentProfiles (Suc 0) flaky_klaviyo 10 3) = Some ''c2''"
    unfolding flaky_first_page by simp_all
  have c: "\<forall>m. fetchAllKlaviyoSegmentProfiles (Suc (Suc 0) + m) flaky_klaviyo 10 3 =
     \<lparr>profiles = [ann, bob], seenEmails = {''ann@x.com'', ''bob@x.com''},
      cursor = Some ''c2'', page = 2, disk = Some [ann, bob], requests = 6,
      delays = [500, 1000, 150, 500, 1000, 1500],
      fetched = [api_profile ''01'' (JStr '' Ann@X.com ''), api_profile ''02'' (JStr ''ann@x.com''),
                 api_profile ''03'' JNull, api_profile ''04'' (JStr ''bob@x.com'')],
      status = Abandoned\<rparr>"
  proof -
    let ?st = "fetchAllKlaviyoSegmentProfiles (Suc 0) flaky_klaviyo 10 3"
    have h: "status ?st = Running \<and> int (length (profiles ?st)) < 10 \<and>
        (\<forall>i<nat 3. failed_attempt (segment_api flaky_klaviyo (requests ?st + i) (url_cursor (cursor ?st))))"
      using late run by simp
    from fetcher_page_retries [of 0 flaky_klaviyo 3 "Some ''c2''" 3 "[]" "Suc 0" 10,
        THEN conjunct2, THEN conjunct2, unfolded Let_def, THEN mp, OF h]
    have "\<forall>m. fetchAllKlaviyoSegmentProfiles (Suc (Suc 0) + m) flaky_klaviyo 10 3 =
        ?st\<lparr>requests := requests ?st + nat 3,
            delays := delays ?st @ map (\<lambda>a. 500 * a) [1 ..< nat 3 + 1],
            status := Abandoned\<rparr>" .
    then show ?thesis unfolding flaky_first_page by (simp add: upt_conv_Cons)
  qed
  from a b c run(1) show ?thesis by blast
qed

text \<open>
  Claim C7. For every limit, the snapshot on disk is never longer than the limit: it is
  the profile list, in the order the profiles were first seen, cut at the limit. It is
  rewritten in full after every page (once a page is done, the disk holds the cut list of
  all profiles gathered so far; before the first page nothing is written), and each
  snapshot extends the one before it. So a crash during a page loses that page only.
\<close>

theorem fetcher_snapshot_after_every_page:
  "let st = fetchAllKlaviyoSegmentProfiles n env limit maxRetries;
       st' = fetchAllKlaviyoSegmentProfiles (Suc n) env limit maxRetries in
     (\<forall>snap. disk st = Some snap \<longrightarrow>
        int (length snap) \<le> limit \<and> snap = take (nat limit) (profiles st)) \<and>
     (disk st = None \<longrightarrow> profiles st = [] \<and> page st = 1) \<and>
     (1 < page st \<longrightarrow> disk st = Some (slice0 (profiles st) limit)) \<and>
     prefix (profiles st) (profiles st') \<and>
     (\<forall>snap snap'. disk st = Some snap \<and> disk st' = Some snap' \<longrightarrow> prefix snap snap')"
proof -
  let ?st = "fetchAllKlaviyoSegmentProfiles n env limit maxRetries"
  let ?st' = "fetchAllKlaviyoSegmentProfiles (Suc n) env limit maxRetries"
  have inv: "fetch_inv env limit ?st" and inv': "fetch_inv env limit ?st'" by (rule fetch_all_inv)+
  have pre: "prefix (profiles ?st) (profiles ?st')" by (simp add: fetch_page_prefix)
  have a: "int (length snap) \<le> limit \<and> snap = take (nat limit) (profiles ?st)"
    if "disk ?st = Some snap" for snap
    using inv that by (auto simp: fetch_inv_def slice0_take) 
  have a': "snap = take (nat limit) (profiles ?st')" if "disk ?st' = Some snap" for snap
    using inv' that by (auto simp: fetch_inv_def slice0_take)
  have b: "disk ?st = None \<longrightarrow> profiles ?st = [] \<and> page ?st = 1"
    using inv by (auto simp: fetch_inv_def)
  have c: "1 < page ?st \<longrightarrow> disk ?st = Some (slice0 (profiles ?st) limit)"
    using inv by (auto simp: fetch_inv_def)
  have d: "prefix snap snap'" if "disk ?st = Some snap" "disk ?st' = Some snap'" for snap snap'
    using a[OF that(1)] a'[OF that(2)] pre by (simp add: prefix_take_both)
  from a b c pre d show ?thesis unfolding Let_def by blast
qed

text \<open>On the two example pages with limit 3, and with limit 1, where the snapshot is cut.\<close>

theorem fetcher_snapshot_after_every_page_witness:
  "disk (fetchAllKlaviyoSegmentProfiles (Suc 0) steady_klaviyo 3 3) = Some [ann, bob] \<and>
   disk (fetchAllKlaviyoSegmentProfiles (Suc (Suc 0)) steady_klaviyo 3 3) = Some [ann, bob, cy] \<and>
   prefix [ann, bob] [ann, bob, cy] \<and>
   profiles (fetchAllKlaviyoSegmentProfiles (Suc 0) steady_klaviyo 1 3) = [ann, bob] \<and>
   disk (fetchAllKlaviyoSegmentProfiles (Suc 0) steady_klaviyo 1 3) = Some [ann] \<and>
   int (length [ann]) \<le> 1 \<and> [ann] = take (nat 1) [ann, bob]"
  using fetcher_snapshot_after_every_page [of "Suc 0" steady_klaviyo 3 3]
    fetcher_snapshot_after_every_page [of 0 steady_klaviyo 1 3]
  unfolding Let_def steady_first_page steady_second_page steady_capped by simp

text \<open>
  Claim C10, as the code has it. Every entry of the profile list, and so of the snapshot,
  has a non-empty email that is the lowercased and trimmed email attribute (a string) of
  a profile object gone through. A profile object whose email attribute is missing, null,
  or a string that is empty after lowercasing and trimming is passed over: the loop goes
  on with the state unchanged and nothing is thrown.
\<close>

theorem fetcher_entries_have_usable_email:
  "let st = fetchAllKlaviyoSegmentProfiles n env limit maxRetries in
     (\<forall>q\<in>set (profiles st). email q \<noteq> [] \<and>
        (\<exists>p\<in>set (fetched st). \<exists>raw. email_attribute p = Some (JStr raw) \<and>
           email q = trim env (toLowerCase env raw))) \<and>
     (\<forall>snap. disk st = Some snap \<longrightarrow>
        (\<forall>q\<in>set snap. email q \<noteq> [] \<and>
           (\<exists>p\<in>set (fetched st). \<exists>raw. email_attribute p = Some (JStr raw) \<and>
              email q = trim env (toLowerCase env raw)))) \<and>
     (\<forall>p ds profs seen.
        p \<noteq> JNull \<and>
        (email_attribute p = None \<or> email_attribute p = Some JNull \<or>
         (\<exists>raw. email_attribute p = Some (JStr raw) \<and> trim env (toLowerCase env raw) = [])) \<longrightarrow>
        page_loop env (p # ds) (profs, seen) = page_loop env ds (profs, seen))"
proof -
  let ?st = "fetchAllKlaviyoSegmentProfiles n env limit maxRetries"
  let ?ok = "\<lambda>q. email q \<noteq> [] \<and>
        (\<exists>p\<in>set (fetched ?st). \<exists>raw. email_attribute p = Some (JStr raw) \<and>
           email q = trim env (toLowerCase env raw))"
  have inv: "fetch_inv env limit ?st" by (rule fetch_all_inv)
  have mem: "?ok q" if "q \<in> set (profiles ?st)" for q
  proof -
    from that inv have "email q \<in> page_emails env (fetched ?st)" by (auto simp: fetch_inv_def)
    then obtain p where "email q \<noteq> []" "p \<in> set (fetched ?st)"
      "normalized_email env p = Returns (Some (email q))"
      by (auto simp: page_emails_def)
    with normalized_email_Some[of env p "email q"] show ?thesis by blast
  qed
  have snap: "\<forall>q\<in>set snap. ?ok q" if "disk ?st = Some snap" for snap
  proof -
    from inv that have "snap = take (nat limit) (profiles ?st)"
      by (auto simp: fetch_inv_def slice0_take)
    then have "set snap \<subseteq> set (profiles ?st)" by (simp add: set_take_subset)
    with mem show ?thesis by blast
  qed
  have drop: "page_loop env (p # ds) (profs, seen) = page_loop env ds (profs, seen)"
    if "p \<noteq> JNull" "email_attribute p = None \<or> email_attribute p = Some JNull \<or>
         (\<exists>raw. email_attribute p = Some (JStr raw) \<and> trim env (toLowerCase env raw) = [])"
    for p ds profs seen
  proof -
    from that have "normalized_email env p = Returns None \<or> normalized_email env p = Returns (Some [])"
      using normalized_email_missing[of p env] normalized_email_string[of p _ env] by metis
    then show ?thesis by (rule page_loop_drop)
  qed
  from mem snap drop show ?thesis unfolding Let_def by blast
qed

text \<open>On the two example pages: the null email of profile 03 and the blank email of profile 06.\<close>

theorem fetcher_entries_have_usable_email_witness:
  "ann \<in> set (profiles (fetchAllKlaviyoSegmentProfiles (Suc (Suc 0)) steady_klaviyo 3 3)) \<and>
   email ann \<noteq> [] \<and>
   api_profile ''01'' (JStr '' Ann@X.com '') \<in>
     set (fetched (fetchAllKlaviyoSegmentProfiles (Suc (Suc 0)) steady_klaviyo 3 3)) \<and>
   email_attribute (api_profile ''01'' (JStr '' Ann@X.com '')) = Some (JStr '' Ann@X.com '') \<and>
   email ann = trim steady_klaviyo (toLowerCase steady_klaviyo '' Ann@X.com '') \<and>
   email_attribute (api_profile ''03'' JNull) = Some JNull \<and>
   page_loop steady_klaviyo [api_profile ''03'' JNull] ([ann], {''ann@x.com''}) =
     Returns ([ann], {''ann@x.com''}) \<and>
   email_attribute (api_profile ''06'' (JStr ''  '')) = Some (JStr ''  '') \<and>
   trim steady_klaviyo (toLowerCase steady_klaviyo ''  '') = [] \<and>
   page_loop steady_klaviyo [api_profile ''06'' (JStr ''  '')] ([ann], {''ann@x.com''}) =
     Returns ([ann], {''ann@x.com''})"
proof -
  have a: "email_attribute (api_profile ''03'' JNull) = Some JNull"
    "email_attribute (api_profile ''06'' (JStr ''  '')) = Some (JStr ''  '')"
    "email_attribute (api_profile ''01'' (JStr '' Ann@X.com '')) = Some (JStr '' Ann@X.com '')"
    by (simp_all add: email_attribute_def api_profile_def)
  have t: "trim steady_klaviyo (toLowerCase steady_klaviyo ''  '') = []"
    "trim steady_klaviyo (toLowerCase steady_klaviyo '' Ann@X.com '') = ''ann@x.com''"
    by (simp_all add: fetch_eval steady_klaviyo_def)
  have n: "api_profile ''03'' JNull \<noteq> JNull" "api_profile ''06'' (JStr ''  '') \<noteq> JNull"
    by (simp_all add: api_profile_def)
  from fetcher_entries_have_usable_email [of "Suc (Suc 0)" steady_klaviyo 3 3] a t n
  have "page_loop steady_klaviyo [api_profile ''03'' JNull] ([ann], {''ann@x.com''}) =
          page_loop steady_klaviyo [] ([ann], {''ann@x.com''})"
    "page_loop steady_klaviyo [api_profile ''06'' (JStr ''  '')] ([ann], {''ann@x.com''}) =
          page_loop steady_klaviyo [] ([ann], {''ann@x.com''})"
    unfolding Let_def by blast+
  with a t show ?thesis unfolding steady_second_page by (simp add: ann_def)
qed

text \<open>
  Claim C10 as stated, for every profile without a usable email, fails on an email that
  is not a string: \<open>toLowerCase\<close> is called on it, the \<open>TypeError\<close> is not caught,
  and the run ends before the page is written. On a page that brings ann and then a
  profile whose email is the number 5, nothing reaches the snapshot, ann included.
\<close>

theorem fetcher_non_string_email_counterexample:
  "email_attribute (api_profile ''08'' (JNum 5)) = Some (JNum 5) \<and>
   normalized_email odd_klaviyo (api_profile ''08'' (JNum 5)) = Throws \<and>
   page_loop odd_klaviyo [api_profile ''08'' (JNum 5)] ([ann], {''ann@x.com''}) = Throws \<and>
   page_loop odd_klaviyo [api_profile ''08'' (JNum 5)] ([ann], {''ann@x.com''}) \<noteq>
     page_loop odd_klaviyo [] ([ann], {''ann@x.com''}) \<and>
   status (fetchAllKlaviyoSegmentProfiles (Suc 0) odd_klaviyo 10 3) = Crashed \<and>
   disk (fetchAllKlaviyoSegmentProfiles (Suc 0) odd_klaviyo 10 3) = None"
  unfolding odd_page_crashes
  by (simp add: email_attribute_def api_profile_def normalized_email_def)


section \<open>The enricher: lemmas\<close>

lemma sameValueZero_eq: "sameValueZero w v \<Longrightarrow> w = v"
  by (cases w) auto

lemma js_includes_str: "js_includes xs (JStr e) \<longleftrightarrow> JStr e \<in> set xs"
proof
  assume "js_includes xs (JStr e)"
  then show "JStr e \<in> set xs"
    by (auto simp: js_includes_def list_ex_iff dest: sameValueZero_eq)
next
  assume "JStr e \<in> set xs"
  then show "js_includes xs (JStr e)"
    by (auto simp: js_includes_def list_ex_iff intro!: bexI[of _ "JStr e"])
qed

lemma set_set_add: "set (set_add v xs) = insert v (set xs)"
  by (auto simp: set_add_def js_includes_def list_ex_iff dest: sameValueZero_eq)

lemma line_email_get_prop:
  "get_prop (Some j) ''email'' = Returns e \<Longrightarrow> line_email (Parsed j) = e"
  by (cases j) (auto simp: line_email_def)

lemma get_prop_throws: "get_prop (Some j) k = Throws \<longleftrightarrow> j = JNull"
  by (cases j) auto

lemma load_lines_emails:
  "set (fst (load_lines ls (es, ws))) =
     set es \<union> {e. truthy (Some e) \<and> (\<exists>l\<in>set ls. line_email l = Some e)}"
proof (induction ls arbitrary: es ws)
  case Nil
  then show ?case by simp
next
  case (Cons l ls)
  show ?case
  proof (cases l)
    case (Unparseable s)
    then show ?thesis using Cons.IH by (auto simp: line_email_def)
  next
    case (Parsed j)
    show ?thesis
    proof (cases "get_prop (Some j) ''email''")
      case Throws
      then have "line_email l = None" using Parsed
        by (simp add: get_prop_throws line_email_def)
      then show ?thesis using Parsed Throws Cons.IH by auto
    next
      case (Returns e)
      then have le: "line_email l = e" using Parsed by (simp add: line_email_get_prop)
      show ?thesis
      proof (cases "truthy e")
        case True
        then obtain v where "e = Some v" by (cases e) auto
        with True Returns Parsed le Cons.IH[of "set_add v es" ws] show ?thesis
          by (auto simp: set_set_add)
      next
        case False
        with Returns Parsed le Cons.IH[of es ws] show ?thesis by auto
      qed
    qed
  qed
qed

lemma load_lines_warned:
  "snd (load_lines ls (es, ws)) = ws @ filter warns ls"
proof (induction ls arbitrary: es ws)
  case Nil
  then show ?case by simp
next
  case (Cons l ls)
  show ?case
  proof (cases l)
    case (Unparseable s)
    then show ?thesis using Cons.IH by (simp add: warns_def)
  next
    case (Parsed j)
    then show ?thesis using Cons.IH
      by (cases j) (auto simp: warns_def split: js.splits)
  qed
qed

lemma load_lines_ignores:
  "fst (load_lines ls (es, ws)) = fst (load_lines (filter is_parsed ls) (es, ws'))"
proof (induction ls arbitrary: es ws ws')
  case Nil
  then show ?case by simp
next
  case (Cons l ls)
  show ?case
  proof (cases l)
    case (Unparseable s)
    then show ?thesis using Cons.IH by (simp add: is_parsed_def)
  next
    case (Parsed j)
    then show ?thesis using Cons.IH
      by (auto simp: is_parsed_def split: js.splits)
  qed
qed


lemma lookup_retry:
  "rate_limited (customers_api env reqs e) \<Longrightarrow>
     getShopifyCustomerIdByEmail env e reqs dls =
     getShopifyCustomerIdByEmail env e (reqs + 1) (dls @ [1000])"
  by (subst getShopifyCustomerIdByEmail.simps) simp

lemma lookup_answer:
  "\<not> rate_limited (customers_api env reqs e) \<Longrightarrow>
     getShopifyCustomerIdByEmail env e reqs dls =
     Some (customer_of (customers_api env reqs e), reqs + 1, dls)"
  by (subst getShopifyCustomerIdByEmail.simps) simp

lemma lookup_retries:
  "(\<forall>i<k. rate_limited (customers_api env (reqs + i) e)) \<Longrightarrow>
     getShopifyCustomerIdByEmail env e reqs dls =
     getShopifyCustomerIdByEmail env e (reqs + k) (dls @ replicate k 1000)"
proof (induction k arbitrary: reqs dls)
  case 0
  then show ?case by simp
next
  case (Suc k)
  from Suc.prems have first: "rate_limited (customers_api env reqs e)"
    by (metis add.right_neutral zero_less_Suc)
  have rest: "\<forall>i<k. rate_limited (customers_api env (reqs + 1 + i) e)"
  proof (intro allI impI)
    fix i assume "i < k"
    then have "Suc i < Suc k" by simp
    with Suc.prems have "rate_limited (customers_api env (reqs + Suc i) e)" by blast
    then show "rate_limited (customers_api env (reqs + 1 + i) e)" by simp
  qed
  have "getShopifyCustomerIdByEmail env e reqs dls =
        getShopifyCustomerIdByEmail env e (reqs + 1) (dls @ [1000])"
    using first by (rule lookup_retry)
  also have "\<dots> = getShopifyCustomerIdByEmail env e (reqs + 1 + k) ((dls @ [1000]) @ replicate k 1000)"
    using rest by (rule Suc.IH)
  finally show ?case by (simp add: replicate_append_same)
qed

lemma lookup_returns_not_limited:
  assumes "getShopifyCustomerIdByEmail env e reqs dls = Some y"
  shows "\<exists>i. \<not> rate_limited (customers_api env (reqs + i) e)"
proof (rule getShopifyCustomerIdByEmail.raw_induct
    [where P = "\<lambda>env e reqs dls y. \<exists>i. \<not> rate_limited (customers_api env (reqs + i) e)", OF _ assms])
  fix lookup :: "shopify \<Rightarrow> string \<Rightarrow> nat \<Rightarrow> nat list \<Rightarrow> (jsval \<times> nat \<times> nat list) option"
  fix env e reqs dls y
  assume IH: "\<And>env e reqs dls y. lookup env e reqs dls = Some y \<Longrightarrow>
                \<exists>i. \<not> rate_limited (customers_api env (reqs + i) e)"
    and body: "(if rate_limited (customers_api env reqs e)
                then lookup env e (reqs + 1) (dls @ [1000])
                else Some (customer_of (customers_api env reqs e), reqs + 1, dls)) = Some y"
  show "\<exists>i. \<not> rate_limited (customers_api env (reqs + i) e)"
  proof (cases "rate_limited (customers_api env reqs e)")
    case True
    with body have "lookup env e (reqs + 1) (dls @ [1000]) = Some y" by simp
    from IH[OF this] obtain i where "\<not> rate_limited (customers_api env (reqs + 1 + i) e)" by blast
    then have "\<not> rate_limited (customers_api env (reqs + Suc i) e)" by simp
    then show ?thesis by blast
  next
    case False
    then have "\<not> rate_limited (customers_api env (reqs + 0) e)" by simp
    then show ?thesis by blast
  qed
qed

lemma lookup_diverges:
  "(\<forall>i. rate_limited (customers_api env (reqs + i) e)) \<Longrightarrow>
     getShopifyCustomerIdByEmail env e reqs dls = None"
  using lookup_returns_not_limited[of env e reqs dls] by (cases "getShopifyCustomerIdByEmail env e reqs dls") auto

lemma enrich_profile_skip:
  "js_includes pe (JStr (email p)) \<Longrightarrow>
     enrich_profile env pe p st = Some (st\<lparr>processedCount := processedCount st + 1\<rparr>)"
  by (simp add: enrich_profile_def)

lemma enrich_profile_cases:
  assumes "enrich_profile env pe p st = Some st'"
  shows "(enriched_file st' = enriched_file st \<and> enrichedProfiles st' = enrichedProfiles st) \<or>
         (\<not> js_includes pe (JStr (email p)) \<and>
          (\<exists>order. enriched_file st' =
                      saveEnrichedProfileIncrementally (enriched_record p order) (enriched_file st) \<and>
                    enrichedProfiles st' = enrichedProfiles st @ [enriched_record p order]))"
  using assms
  by (auto simp: enrich_profile_def Let_def split: if_splits option.splits prod.splits)

lemma line_email_record [simp]:
  "line_email (Parsed (enriched_record p order)) = Some (JStr (email p))"
  by (simp add: line_email_def enriched_record_def split: option.splits)

lemma log_lines_save [simp]:
  "log_lines (saveEnrichedProfileIncrementally r file) = log_lines file @ [Parsed r]"
  by (simp add: log_lines_def saveEnrichedProfileIncrementally_def)

lemma enrich_appends:
  "enrichKlaviyoProfiles env pe ps st = Some st' \<Longrightarrow>
     \<exists>qos. subseq (map fst qos) ps \<and>
           (\<forall>q\<in>set (map fst qos). \<not> js_includes pe (JStr (email q))) \<and>
           log_lines (enriched_file st') =
             log_lines (enriched_file st) @ map (\<lambda>x. Parsed (enriched_record (fst x) (snd x))) qos \<and>
           enrichedProfiles st' =
             enrichedProfiles st @ map (\<lambda>x. enriched_record (fst x) (snd x)) qos"
proof (induction ps arbitrary: st)
  case Nil
  then show ?case by (intro exI[of _ "[]"]) simp
next
  case (Cons p ps)
  from Cons.prems obtain st1 where
    s1: "enrich_profile env pe p st = Some st1" and
    s2: "enrichKlaviyoProfiles env pe ps st1 = Some st'"
    by (auto split: option.splits)
  from Cons.IH[OF s2] obtain qos where
    q: "subseq (map fst qos) ps"
       "\<forall>q\<in>set (map fst qos). \<not> js_includes pe (JStr (email q))"
       "log_lines (enriched_file st') =
          log_lines (enriched_file st1) @ map (\<lambda>x. Parsed (enriched_record (fst x) (snd x))) qos"
       "enrichedProfiles st' =
          enrichedProfiles st1 @ map (\<lambda>x. enriched_record (fst x) (snd x)) qos"
    by blast
  from enrich_profile_cases[OF s1] show ?case
  proof
    assume "enriched_file st1 = enriched_file st \<and> enrichedProfiles st1 = enrichedProfiles st"
    with q show ?thesis by (intro exI[of _ qos]) (simp add: list_emb_Cons)
  next
    assume "\<not> js_includes pe (JStr (email p)) \<and>
          (\<exists>order. enriched_file st1 =
                      saveEnrichedProfileIncrementally (enriched_record p order) (enriched_file st) \<and>
                    enrichedProfiles st1 = enrichedProfiles st @ [enriched_record p order])"
    then obtain order where
      "\<not> js_includes pe (JStr (email p))"
      "enriched_file st1 = saveEnrichedProfileIncrementally (enriched_record p order) (enriched_file st)"
      "enrichedProfiles st1 = enrichedProfiles st @ [enriched_record p order]"
      by blast
    with q show ?thesis by (intro exI[of _ "(p, order) # qos"]) simp
  qed
qed

lemma loaded_emails:
  "set (fst (loadProcessedEmailsFromNDJSON log)) =
     {e. truthy (Some e) \<and> (\<exists>l\<in>set (log_lines log). line_email l = Some e)}"
proof (cases log)
  case None
  then show ?thesis by (simp add: loadProcessedEmailsFromNDJSON_def log_lines_def)
next
  case (Some ls)
  have "line_email (Unparseable []) = None" by (simp add: line_email_def)
  then have "(\<exists>l\<in>set (filter (\<lambda>l. l \<noteq> Unparseable []) ls). line_email l = Some e) \<longleftrightarrow>
        (\<exists>l\<in>set ls. line_email l = Some e)" for e
    by auto
  with Some show ?thesis
    by (simp add: loadProcessedEmailsFromNDJSON_def log_lines_def load_lines_emails)
qed


lemma processed_iff:
  "js_includes (fst (loadProcessedEmailsFromNDJSON log)) (JStr e) \<longleftrightarrow>
     e \<noteq> [] \<and> (\<exists>l\<in>set (log_lines log). line_email l = Some (JStr e))"
  by (auto simp: js_includes_str loaded_emails)

lemma records_for_append:
  "log_lines log' = log_lines log @ ls \<Longrightarrow>
     records_for e log' = records_for e log @ filter (\<lambda>l. line_email l = Some e) ls"
  by (simp add: records_for_def)

lemma new_records_filter:
  "filter (\<lambda>l. line_email l = Some e) (map (\<lambda>x. Parsed (enriched_record (fst x) (snd x))) qos) =
   map (\<lambda>x. Parsed (enriched_record (fst x) (snd x))) (filter (\<lambda>x. JStr (email (fst x)) = e) qos)"
  by (induction qos) auto

lemma subseq_subset: "subseq xs ys \<Longrightarrow> set xs \<subseteq> set ys"
  by (induction rule: list_emb.induct) auto

lemma subseq_keeps_distinct: "subseq xs ys \<Longrightarrow> distinct ys \<Longrightarrow> distinct xs"
  by (induction rule: list_emb.induct) (auto dest: subseq_subset)


section \<open>The chart aggregator: lemmas\<close>

lemma map_of_bump:
  "map_of (bump k cs) k' =
     (if k' = k then Some (case map_of cs k of None \<Rightarrow> 1 | Some c \<Rightarrow> c + 1) else map_of cs k')"
  by (induction cs) auto

lemma keys_bump: "fst ` set (bump k cs) = insert k (fst ` set cs)"
proof (induction cs)
  case Nil
  show ?case by simp
next
  case (Cons x cs)
  obtain k' c where x: "x = (k', c)" by (cases x)
  show ?case
  proof (cases "k = k'")
    case True
    with x show ?thesis by simp
  next
    case False
    with x Cons.IH show ?thesis by (simp add: insert_commute)
  qed
qed

lemma distinct_bump: "distinct (map fst cs) \<Longrightarrow> distinct (map fst (bump k cs))"
  by (induction cs) (auto simp: keys_bump)

lemma occurrences_Cons:
  "occurrences k (l # ls) = (if line_key l = Some k then 1 else 0) + occurrences k ls"
  by (simp add: occurrences_def)

lemma occurrences_Nil: "occurrences k [] = 0"
  by (simp add: occurrences_def)

lemma count_lines_total: "snd (count_lines ls (cs, n)) = n + length ls"
  by (induction ls arbitrary: cs n) (auto split: option.splits)

lemma count_lines_distinct:
  "distinct (map fst cs) \<Longrightarrow> distinct (map fst (fst (count_lines ls (cs, n))))"
  by (induction ls arbitrary: cs n) (auto split: option.splits simp: distinct_bump)

lemma count_lines_counts:
  "map_of (fst (count_lines ls (cs, n))) k =
     (case map_of cs k of
        None \<Rightarrow> if occurrences k ls = 0 then None else Some (occurrences k ls)
      | Some c \<Rightarrow> Some (c + occurrences k ls))"
proof (induction ls arbitrary: cs n)
  case Nil
  then show ?case by (simp add: occurrences_Nil split: option.splits)
next
  case (Cons l ls)
  show ?case
  proof (cases "line_key l")
    case None
    then show ?thesis using Cons.IH[of cs "n + 1"]
      by (simp add: occurrences_Cons split: option.splits)
  next
    case (Some k')
    then show ?thesis using Cons.IH[of "bump k' cs" "n + 1"]
      by (auto simp: occurrences_Cons map_of_bump split: option.splits)
  qed
qed

lemma top_sorted: "sorted_wrt (\<lambda>a b. snd b \<le> snd a) (top_products cs)"
proof -
  have "sorted (map (\<lambda>(k, c). - int c) (sort_key (\<lambda>(k, c). - int c) cs))"
    by (rule sorted_sort_key)
  then have "sorted_wrt (\<lambda>a b. snd b \<le> snd a) (sort_key (\<lambda>(k, c). - int c) cs)"
    by (simp add: sorted_wrt_map case_prod_beta sorted_wrt_iff_nth_less) 
  then show ?thesis
    unfolding top_products_def by (rule sorted_wrt_take)
qed

lemma top_best:
  assumes "x \<in> set (top_products cs)" "y \<in> set cs" "y \<notin> set (top_products cs)"
  shows "snd y \<le> snd x"
proof -
  let ?s = "sort_key (\<lambda>(k, c). - int c) cs"
  have s: "sorted_wrt (\<lambda>a b. snd b \<le> snd a) ?s"
  proof -
    have "sorted (map (\<lambda>(k, c). - int c) ?s)" by (rule sorted_sort_key)
    then show ?thesis by (simp add: sorted_wrt_map case_prod_beta sorted_wrt_iff_nth_less) 
  qed
  have all: "\<forall>a\<in>set (take MAX_PRODUCTS ?s). \<forall>b\<in>set (drop MAX_PRODUCTS ?s). snd b \<le> snd a"
    using sorted_wrt_append[of "\<lambda>a b. snd b \<le> snd a" "take MAX_PRODUCTS ?s" "drop MAX_PRODUCTS ?s"] s
    by simp
  from assms(2) have "y \<in> set ?s" by simp
  then have "y \<in> set (take MAX_PRODUCTS ?s) \<union> set (drop MAX_PRODUCTS ?s)"
    by (metis append_take_drop_id set_append)
  with assms(3) have "y \<in> set (drop MAX_PRODUCTS ?s)" by (simp add: top_products_def)
  with all assms(1) show ?thesis by (simp add: top_products_def)
qed

lemma top_length: "length (top_products cs) = min 10 (length cs)"
  by (simp add: top_products_def MAX_PRODUCTS_def)

lemma top_keeps_order:
  "prefix (filter (\<lambda>x. snd x = c) (top_products cs)) (filter (\<lambda>x. snd x = c) cs)"
proof -
  let ?s = "sort_key (\<lambda>(k, c). - int c) cs"
  have "filter (\<lambda>y. (\<lambda>(k, c). - int c) y = - int c) ?s =
        filter (\<lambda>y. (\<lambda>(k, c). - int c) y = - int c) cs"
    by (rule sort_key_stable)
  then have st: "filter (\<lambda>x. snd x = c) ?s = filter (\<lambda>x. snd x = c) cs"
    by (simp add: case_prod_beta)
  have "filter (\<lambda>x. snd x = c) ?s =
        filter (\<lambda>x. snd x = c) (take MAX_PRODUCTS ?s) @ filter (\<lambda>x. snd x = c) (drop MAX_PRODUCTS ?s)"
    by (metis append_take_drop_id filter_append)
  with st show ?thesis unfolding top_products_def prefix_def by metis
qed

lemma top_distinct: "distinct (map fst cs) \<Longrightarrow> distinct (map fst (top_products cs))"
proof -
  assume "distinct (map fst cs)"
  then have "distinct (map fst (sort_key (\<lambda>(k, c). - int c) cs))"
    by (metis distinct_map distinct_sort set_sort)
  then have "distinct (take MAX_PRODUCTS (map fst (sort_key (\<lambda>(k, c). - int c) cs)))"
    by (rule distinct_take)
  then show ?thesis by (simp add: top_products_def take_map)
qed

subsection \<open>The example runs of the enricher, evaluated\<close>

lemmas enrich_eval =
  enrich_run_def enrich_init_def loadProcessedEmailsFromNDJSON_def enrich_profile_def
  customer_of_def getMostRecentOrder_def order_summary_def index0_def or_else_def
  saveEnrichedProfileIncrementally_def rate_limited_def found_customer_def found_order_def
  js_includes_def set_add_def enriched_record_def summary_A_def ann_def bob_def cy_def
  ann_again_def lookup_answer lookup_retry

lemma good_first_run:
  "enrich_run good_shop None [ann, ann_again] =
     Some \<lparr>enriched_file = Some [Parsed (enriched_record ann summary_A),
                                 Parsed (enriched_record ann_again summary_A)],
           enrichedProfiles = [enriched_record ann summary_A, enriched_record ann_again summary_A],
           processedCount = 2, shop_requests = 4, shop_delays = []\<rparr>"
  by (simp add: enrich_eval good_shop_def)

lemma good_rerun:
  "enrich_run good_shop (Some [Parsed (enriched_record ann summary_A)]) [ann, bob] =
     Some \<lparr>enriched_file = Some [Parsed (enriched_record ann summary_A),
                                 Parsed (enriched_record bob summary_A)],
           enrichedProfiles = [enriched_record bob summary_A],
           processedCount = 2, shop_requests = 2, shop_delays = []\<rparr>"
  by (simp add: enrich_eval good_shop_def)


section \<open>Properties of the enricher\<close>

text \<open>
  Claim C1, as the code has it. The set of processed emails is loaded from the log once,
  before the loop, and \<open>updateProcessedProfiles\<close> leaves it alone, so it blocks the
  emails the log held at the start and nothing else. When the emails of the profile list
  are pairwise distinct and the log held at most one record per email at the start, the
  log of a run that returns holds at most one record per email (an email being a
  non-empty string, as the fetcher emits it and the loader registers it). Every stage of a run
  is the run on a shorter profile list, so the same holds while a run is under way.
\<close>

theorem enricher_one_record_per_email:
  assumes "distinct (map email ps)"
    and "\<forall>e. e \<noteq> [] \<longrightarrow> length (records_for (JStr e) log) \<le> 1"
    and "enrich_run env log ps = Some st"
  shows "\<forall>e. e \<noteq> [] \<longrightarrow> length (records_for (JStr e) (enriched_file st)) \<le> 1"
proof (intro allI impI)
  fix e :: string
  assume ne: "e \<noteq> []"
  let ?pe = "fst (loadProcessedEmailsFromNDJSON log)"
  from assms(3) have "enrichKlaviyoProfiles env ?pe ps (enrich_init log) = Some st"
    by (simp add: enrich_run_def)
  from enrich_appends[OF this] obtain qos where
    q: "subseq (map fst qos) ps"
       "\<forall>q\<in>set (map fst qos). \<not> js_includes ?pe (JStr (email q))"
       "log_lines (enriched_file st) =
          log_lines log @ map (\<lambda>x. Parsed (enriched_record (fst x) (snd x))) qos"
    by (auto simp: enrich_init_def)
  let ?new = "filter (\<lambda>x. JStr (email (fst x)) = JStr e) qos"
  have len: "length (records_for (JStr e) (enriched_file st)) =
      length (records_for (JStr e) log) + length ?new"
    using records_for_append[OF q(3), of "JStr e"] by (simp add: new_records_filter)
  from q(1) assms(1) have "distinct (map email (map fst qos))"
    by (metis subseq_map subseq_keeps_distinct)
  then have dq: "distinct (map (\<lambda>x. email (fst x)) qos)"
    by (simp add: comp_def)
  have new1: "length ?new \<le> 1"
  proof (rule ccontr)
    assume "\<not> length ?new \<le> 1"
    then obtain a b rest where ab: "?new = a # b # rest"
      by (cases ?new; cases "tl ?new") auto
    then have "a \<in> set ?new" "b \<in> set ?new" by simp_all
    then have "email (fst a) = email (fst b)" by auto
    moreover have "distinct (map (\<lambda>x. email (fst x)) ?new)"
      using dq by (rule distinct_map_filter)
    ultimately show False using ab by auto
  qed
  show "length (records_for (JStr e) (enriched_file st)) \<le> 1"
  proof (cases "?new = []")
    case True
    with len assms(2) ne show ?thesis by simp
  next
    case False
    then obtain x where m: "x \<in> set qos" "email (fst x) = e"
      by (auto simp: filter_empty_conv)
    with q(2) have "\<not> js_includes ?pe (JStr e)" by force
    with ne have "\<forall>l\<in>set (log_lines log). line_email l \<noteq> Some (JStr e)"
      by (auto simp: processed_iff)
    then have "records_for (JStr e) log = []"
      by (auto simp: records_for_def filter_empty_conv)
    with len new1 show ?thesis by simp
  qed
qed

text \<open>
  On a log that holds a record for ann, enriching ann and bob.
\<close>

theorem enricher_one_record_per_email_witness:
  "distinct (map email [ann, bob]) \<and>
   (\<forall>e. length (records_for (JStr e) (Some [Parsed (enriched_record ann summary_A)])) \<le> 1) \<and>
   enrich_run good_shop (Some [Parsed (enriched_record ann summary_A)]) [ann, bob] =
     Some \<lparr>enriched_file = Some [Parsed (enriched_record ann summary_A),
                                 Parsed (enriched_record bob summary_A)],
           enrichedProfiles = [enriched_record bob summary_A],
           processedCount = 2, shop_requests = 2, shop_delays = []\<rparr> \<and>
   ''ann@x.com'' \<noteq> [] \<and> ''bob@x.com'' \<noteq> [] \<and>
   length (records_for (JStr ''ann@x.com'')
     (Some [Parsed (enriched_record ann summary_A), Parsed (enriched_record bob summary_A)])) \<le> 1 \<and>
   length (records_for (JStr ''bob@x.com'')
     (Some [Parsed (enriched_record ann summary_A), Parsed (enriched_record bob summary_A)])) \<le> 1"
proof -
  have h1: "distinct (map email [ann, bob])" by (simp add: ann_def bob_def)
  have h2: "\<forall>e. length (records_for (JStr e) (Some [Parsed (enriched_record ann summary_A)])) \<le> 1"
    by (simp add: records_for_def log_lines_def)
  then have h2': "\<forall>e. e \<noteq> [] \<longrightarrow>
      length (records_for (JStr e) (Some [Parsed (enriched_record ann summary_A)])) \<le> 1"
    by blast
  from enricher_one_record_per_email [OF h1 h2' good_rerun] h1 h2 good_rerun
  show ?thesis by simp
qed

text \<open>
  Claim C1 as stated, for every profile list and prior log, fails: two profiles with
  the same email in one list, on a log that does not exist yet, are both enriched, and the
  log ends with two records for that email. A later run on that log, here over the empty
  list, leaves the two records there.
\<close>

theorem enricher_duplicate_input_counterexample:
  "enrich_run good_shop None [ann, ann_again] \<noteq> None \<and>
   email ann = ''ann@x.com'' \<and> email ann_again = ''ann@x.com'' \<and>
   records_for (JStr ''ann@x.com'')
     (enriched_file (the (enrich_run good_shop None [ann, ann_again]))) =
     [Parsed (enriched_record ann summary_A), Parsed (enriched_record ann_again summary_A)] \<and>
   \<not> length (records_for (JStr ''ann@x.com'')
         (enriched_file (the (enrich_run good_shop None [ann, ann_again])))) \<le> 1 \<and>
   enrich_run good_shop (enriched_file (the (enrich_run good_shop None [ann, ann_again]))) [] \<noteq> None \<and>
   \<not> length (records_for (JStr ''ann@x.com'')
         (enriched_file (the (enrich_run good_shop
            (enriched_file (the (enrich_run good_shop None [ann, ann_again]))) [])))) \<le> 1"
  unfolding good_first_run
  by (simp add: records_for_def log_lines_def ann_def ann_again_def enrich_run_def enrich_init_def)

text \<open>
  Claim C2. When the log holds, at the start of a run, a record whose email is the
  non-empty string \<open>E\<close>, every profile with email \<open>E\<close> is skipped (no request, no
  write, only the processed count goes up), and whatever the profile list and the shop's
  answers, a run that returns has appended no record for \<open>E\<close>: the records for
  \<open>E\<close> in the log are those it held before. Every stage of a run is the run on a
  shorter profile list, so the same holds while a run is under way.
\<close>

theorem enricher_skips_present_email:
  assumes "l \<in> set (log_lines log)" and "line_email l = Some (JStr E)" and "E \<noteq> []"
  shows "(\<forall>env p st. email p = E \<longrightarrow>
            enrich_profile env (fst (loadProcessedEmailsFromNDJSON log)) p st =
              Some (st\<lparr>processedCount := processedCount st + 1\<rparr>)) \<and>
         (\<forall>env ps st. enrich_run env log ps = Some st \<longrightarrow>
            records_for (JStr E) (enriched_file st) = records_for (JStr E) log \<and>
            (\<forall>r\<in>set (enrichedProfiles st). line_email (Parsed r) \<noteq> Some (JStr E)))"
proof (intro conjI allI impI)
  let ?pe = "fst (loadProcessedEmailsFromNDJSON log)"
  from assms have inc: "js_includes ?pe (JStr E)" by (auto simp: processed_iff)
  {
    fix env and p :: profile and st :: estate
    assume "email p = E"
    with inc show "enrich_profile env ?pe p st = Some (st\<lparr>processedCount := processedCount st + 1\<rparr>)"
      by (simp add: enrich_profile_skip)
  }
  {
    fix env ps st
    assume run: "enrich_run env log ps = Some st"
    then have "enrichKlaviyoProfiles env ?pe ps (enrich_init log) = Some st"
      by (simp add: enrich_run_def)
    from enrich_appends[OF this] obtain qos where
      q: "\<forall>q\<in>set (map fst qos). \<not> js_includes ?pe (JStr (email q))"
         "log_lines (enriched_file st) =
            log_lines log @ map (\<lambda>x. Parsed (enriched_record (fst x) (snd x))) qos"
         "enrichedProfiles st = map (\<lambda>x. enriched_record (fst x) (snd x)) qos"
      by (auto simp: enrich_init_def)
    from q(1) inc have none: "filter (\<lambda>x. JStr (email (fst x)) = JStr E) qos = []"
      by (auto simp: filter_empty_conv)
    show "records_for (JStr E) (enriched_file st) = records_for (JStr E) log"
      using records_for_append[OF q(2), of "JStr E"] none by (simp add: new_records_filter)
    show "\<forall>r\<in>set (enrichedProfiles st). line_email (Parsed r) \<noteq> Some (JStr E)"
      using q(1,3) inc by auto
  }
qed

text \<open>
  On a log that holds a record for ann, enriching ann and bob.
\<close>

theorem enricher_skips_present_email_witness:
  "Parsed (enriched_record ann summary_A) \<in>
     set (log_lines (Some [Parsed (enriched_record ann summary_A)])) \<and>
   line_email (Parsed (enriched_record ann summary_A)) = Some (JStr ''ann@x.com'') \<and>
   enrich_profile good_shop
     (fst (loadProcessedEmailsFromNDJSON (Some [Parsed (enriched_record ann summary_A)])))
     ann (enrich_init (Some [Parsed (enriched_record ann summary_A)])) =
     Some \<lparr>enriched_file = Some [Parsed (enriched_record ann summary_A)], enrichedProfiles = [],
           processedCount = 1, shop_requests = 0, shop_delays = []\<rparr> \<and>
   enrich_run good_shop (Some [Parsed (enriched_record ann summary_A)]) [ann, bob] \<noteq> None \<and>
   records_for (JStr ''ann@x.com'')
     (enriched_file (the (enrich_run good_shop (Some [Parsed (enriched_record ann summary_A)])
        [ann, bob]))) =
     [Parsed (enriched_record ann summary_A)]"
proof -
  let ?log = "Some [Parsed (enriched_record ann summary_A)]"
  have h1: "Parsed (enriched_record ann summary_A) \<in> set (log_lines ?log)"
    by (simp add: log_lines_def)
  have h2: "line_email (Parsed (enriched_record ann summary_A)) = Some (JStr ''ann@x.com'')"
    by (simp add: ann_def)
  have h3: "''ann@x.com'' \<noteq> []" by simp
  have e: "email ann = ''ann@x.com''" by (simp add: ann_def)
  note T = enricher_skips_present_email [OF h1 h2 h3]
  from T e have a: "enrich_profile good_shop (fst (loadProcessedEmailsFromNDJSON ?log))
       ann (enrich_init ?log) =
     Some ((enrich_init ?log)\<lparr>processedCount := processedCount (enrich_init ?log) + 1\<rparr>)"
    by blast
  from T good_rerun have b: "records_for (JStr ''ann@x.com'')
     (enriched_file \<lparr>enriched_file = Some [Parsed (enriched_record ann summary_A),
                                 Parsed (enriched_record bob summary_A)],
           enrichedProfiles = [enriched_record bob summary_A],
           processedCount = 2, shop_requests = 2, shop_delays = []\<rparr>) =
     records_for (JStr ''ann@x.com'') ?log"
    by blast
  have c: "records_for (JStr ''ann@x.com'') ?log = [Parsed (enriched_record ann summary_A)]"
    by (simp add: records_for_def log_lines_def ann_def)
  from h1 h2 a b c show ?thesis
    unfolding good_rerun by (simp add: enrich_init_def)
qed

text \<open>
  Claim C3. A 429 answer of the customer search makes the lookup wait 1000 ms and ask
  again for the same email. After \<open>k\<close> such answers in a row, for any \<open>k\<close>, and
  one other answer, the lookup has made \<open>k + 1\<close> requests and waited \<open>k\<close> times
  1000 ms, and it returns what the last answer gives; when every answer is a 429 it never
  returns. A profile whose search is answered by one 429 and then by a customer is
  enriched like any other, with one wait of 1000 ms, provided the customer has an order.
\<close>

theorem enricher_rate_limit_retry:
  "(rate_limited (customers_api env reqs e) \<longrightarrow>
      getShopifyCustomerIdByEmail env e reqs dls =
      getShopifyCustomerIdByEmail env e (reqs + 1) (dls @ [1000])) \<and>
   ((\<forall>i<k. rate_limited (customers_api env (reqs + i) e)) \<and>
    \<not> rate_limited (customers_api env (reqs + k) e) \<longrightarrow>
      getShopifyCustomerIdByEmail env e reqs dls =
      Some (customer_of (customers_api env (reqs + k) e), reqs + k + 1, dls @ replicate k 1000)) \<and>
   ((\<forall>i. rate_limited (customers_api env (reqs + i) e)) \<longrightarrow>
      getShopifyCustomerIdByEmail env e reqs dls = None) \<and>
   (let r = shop_requests st;
        customer = customer_of (customers_api env (r + 1) (email p));
        order = getMostRecentOrder env (opt_prop customer ''id'') (r + 2) in
    \<not> js_includes pe (JStr (email p)) \<and>
    rate_limited (customers_api env r (email p)) \<and>
    \<not> rate_limited (customers_api env (r + 1) (email p)) \<and>
    truthy customer \<and> truthy order \<longrightarrow>
      enrich_profile env pe p st =
      Some (st\<lparr>enriched_file :=
                 saveEnrichedProfileIncrementally (enriched_record p (the order)) (enriched_file st),
               enrichedProfiles := enrichedProfiles st @ [enriched_record p (the order)],
               processedCount := processedCount st + 1,
               shop_requests := r + 3,
               shop_delays := shop_delays st @ [1000]\<rparr>))"
proof (intro conjI)
  show "rate_limited (customers_api env reqs e) \<longrightarrow>
      getShopifyCustomerIdByEmail env e reqs dls =
      getShopifyCustomerIdByEmail env e (reqs + 1) (dls @ [1000])"
    by (simp add: lookup_retry)
  show "(\<forall>i<k. rate_limited (customers_api env (reqs + i) e)) \<and>
    \<not> rate_limited (customers_api env (reqs + k) e) \<longrightarrow>
      getShopifyCustomerIdByEmail env e reqs dls =
      Some (customer_of (customers_api env (reqs + k) e), reqs + k + 1, dls @ replicate k 1000)"
    using lookup_retries[of k env reqs e dls] lookup_answer[of env "reqs + k" e "dls @ replicate k 1000"]
    by simp
  show "(\<forall>i. rate_limited (customers_api env (reqs + i) e)) \<longrightarrow>
      getShopifyCustomerIdByEmail env e reqs dls = None"
    by (simp add: lookup_diverges)
  show "let r = shop_requests st;
        customer = customer_of (customers_api env (r + 1) (email p));
        order = getMostRecentOrder env (opt_prop customer ''id'') (r + 2) in
    \<not> js_includes pe (JStr (email p)) \<and>
    rate_limited (customers_api env r (email p)) \<and>
    \<not> rate_limited (customers_api env (r + 1) (email p)) \<and>
    truthy customer \<and> truthy order \<longrightarrow>
      enrich_profile env pe p st =
      Some (st\<lparr>enriched_file :=
                 saveEnrichedProfileIncrementally (enriched_record p (the order)) (enriched_file st),
               enrichedProfiles := enrichedProfiles st @ [enriched_record p (the order)],
               processedCount := processedCount st + 1,
               shop_requests := r + 3,
               shop_delays := shop_delays st @ [1000]\<rparr>)"
  proof (unfold Let_def, intro impI, elim conjE)
    let ?r = "shop_requests st"
    let ?c = "customer_of (customers_api env (?r + 1) (email p))"
    assume a: "\<not> js_includes pe (JStr (email p))"
      "rate_limited (customers_api env ?r (email p))"
      "\<not> rate_limited (customers_api env (?r + 1) (email p))"
      "truthy ?c" "truthy (getMostRecentOrder env (opt_prop ?c ''id'') (?r + 2))"
    have "getShopifyCustomerIdByEmail env (email p) ?r (shop_delays st) =
          Some (?c, ?r + 2, shop_delays st @ [1000])"
      using lookup_retry[OF a(2), of "shop_delays st"]
        lookup_answer[OF a(3), of "shop_delays st @ [1000]"] by simp
    with a(1,4,5) show "enrich_profile env pe p st =
      Some (st\<lparr>enriched_file :=
                 saveEnrichedProfileIncrementally
                   (enriched_record p (the (getMostRecentOrder env (opt_prop ?c ''id'') (?r + 2))))
                   (enriched_file st),
               enrichedProfiles := enrichedProfiles st @
                 [enriched_record p (the (getMostRecentOrder env (opt_prop ?c ''id'') (?r + 2)))],
               processedCount := processedCount st + 1,
               shop_requests := ?r + 3,
               shop_delays := shop_delays st @ [1000]\<rparr>)"
      by (simp add: enrich_profile_def Let_def)
  qed
qed

text \<open>
  On a shop whose first answer is a 429, and on one that only answers 429.
\<close>

theorem enricher_rate_limit_retry_witness:
  "rate_limited (customers_api limited_shop 0 ''ann@x.com'') \<and>
   \<not> rate_limited (customers_api limited_shop 1 ''ann@x.com'') \<and>
   getShopifyCustomerIdByEmail limited_shop ''ann@x.com'' 0 [] =
     Some (Some (JObj [(''id'', JNum 7), (''email'', JStr ''ann@x.com'')]), 2, [1000]) \<and>
   getShopifyCustomerIdByEmail busy_shop ''ann@x.com'' 0 [] = None \<and>
   enrich_profile limited_shop [] ann (enrich_init None) =
     Some \<lparr>enriched_file = Some [Parsed (enriched_record ann summary_A)],
           enrichedProfiles = [enriched_record ann summary_A],
           processedCount = 1, shop_requests = 3, shop_delays = [1000]\<rparr>"
proof -
  have api: "\<And>n e. customers_api limited_shop n e =
      (if n = 0 then Response 429 None else found_customer e)"
    "\<And>n c. orders_api limited_shop n c = found_order"
    "\<And>n e. customers_api busy_shop n e = Response 429 None"
    by (simp_all add: limited_shop_def busy_shop_def)
  have first: "rate_limited (customers_api limited_shop 0 ''ann@x.com'')"
    by (simp add: api rate_limited_def)
  have second: "\<not> rate_limited (customers_api limited_shop 1 ''ann@x.com'')"
    by (simp add: api rate_limited_def found_customer_def)
  have h: "(\<forall>i<1. rate_limited (customers_api limited_shop (0 + i) ''ann@x.com'')) \<and>
      \<not> rate_limited (customers_api limited_shop (0 + 1) ''ann@x.com'')"
    using first second by simp
  from enricher_rate_limit_retry
         [of limited_shop 0 "''ann@x.com''" "[]" 1 "enrich_init None" ann "[]",
          THEN conjunct2, THEN conjunct1, THEN mp, OF h]
  have a: "getShopifyCustomerIdByEmail limited_shop ''ann@x.com'' 0 [] =
     Some (Some (JObj [(''id'', JNum 7), (''email'', JStr ''ann@x.com'')]), 2, [1000])"
    by (simp add: api customer_of_def found_customer_def)
  have busy: "\<forall>i. rate_limited (customers_api busy_shop (0 + i) ''ann@x.com'')"
    by (simp add: api rate_limited_def)
  from enricher_rate_limit_retry
         [of busy_shop 0 "''ann@x.com''" "[]" 1 "enrich_init None" ann "[]",
          THEN conjunct2, THEN conjunct2, THEN conjunct1, THEN mp, OF busy]
  have b: "getShopifyCustomerIdByEmail busy_shop ''ann@x.com'' 0 [] = None" .
  have g: "(let r = shop_requests (enrich_init None);
        customer = customer_of (customers_api limited_shop (r + 1) (email ann));
        order = getMostRecentOrder limited_shop (opt_prop customer ''id'') (r + 2) in
    \<not> js_includes [] (JStr (email ann)) \<and>
    rate_limited (customers_api limited_shop r (email ann)) \<and>
    \<not> rate_limited (customers_api limited_shop (r + 1) (email ann)) \<and>
    truthy customer \<and> truthy order)"
    by (simp add: api enrich_init_def customer_of_def getMostRecentOrder_def order_summary_def
        index0_def or_else_def rate_limited_def found_customer_def found_order_def
        js_includes_def ann_def)
  from enricher_rate_limit_retry
         [of limited_shop 0 "''ann@x.com''" "[]" 1 "enrich_init None" ann "[]",
          THEN conjunct2, THEN conjunct2, THEN conjunct2] g
  have c: "enrich_profile limited_shop [] ann (enrich_init None) =
     Some \<lparr>enriched_file = Some [Parsed (enriched_record ann summary_A)],
           enrichedProfiles = [enriched_record ann summary_A],
           processedCount = 1, shop_requests = 3, shop_delays = [1000]\<rparr>"
    unfolding Let_def
    by (simp add: api enrich_init_def customer_of_def getMostRecentOrder_def order_summary_def
        index0_def or_else_def found_customer_def found_order_def
        saveEnrichedProfileIncrementally_def summary_A_def ann_def)
  from first second a b c show ?thesis by blast
qed

text \<open>
  Claim C4. When the customer lookup for a profile returns nothing usable (the request or
  the body failed, or no customer matched) or the order lookup for the customer returns
  null, the iteration writes nothing to the log, adds nothing to the enriched profiles,
  raises the processed count by one and the loop goes on with the next profile. A failed
  request, an unreadable body and an empty customer list all give the null customer; an
  empty order list gives the null order.
\<close>

theorem enricher_skips_missing_customer_or_order:
  "(\<not> js_includes pe (JStr (email p)) \<and>
    getShopifyCustomerIdByEmail env (email p) (shop_requests st) (shop_delays st) =
      Some (customer, reqs, dls) \<and>
    (\<not> truthy customer \<or> \<not> truthy (getMostRecentOrder env (opt_prop customer ''id'') reqs)) \<longrightarrow>
      (\<exists>st'. enrich_profile env pe p st = Some st' \<and>
             enriched_file st' = enriched_file st \<and>
             enrichedProfiles st' = enrichedProfiles st \<and>
             processedCount st' = processedCount st + 1 \<and>
             enrichKlaviyoProfiles env pe (p # ps) st = enrichKlaviyoProfiles env pe ps st')) \<and>
   customer_of NetworkError = Some JNull \<and>
   customer_of (Response s None) = Some JNull \<and>
   customer_of (Response s (Some (JObj [(''customers'', JArr [])]))) = Some JNull \<and>
   (orders_api env reqs cid = Response s (Some (JObj [(''orders'', JArr [])])) \<longrightarrow>
      getMostRecentOrder env cid reqs = Some JNull)"
  by (auto simp: enrich_profile_def Let_def customer_of_def getMostRecentOrder_def)

text \<open>
  On a shop that knows no customer, and on one whose customers have no order.
\<close>

theorem enricher_skips_missing_customer_or_order_witness:
  "getShopifyCustomerIdByEmail empty_shop (email ann) 0 [] = Some (Some JNull, 1, []) \<and>
   \<not> truthy (Some JNull) \<and>
   enrich_profile empty_shop [] ann (enrich_init None) =
     Some \<lparr>enriched_file = None, enrichedProfiles = [], processedCount = 1,
           shop_requests = 1, shop_delays = []\<rparr> \<and>
   enrichKlaviyoProfiles empty_shop [] [ann, bob] (enrich_init None) =
     Some \<lparr>enriched_file = None, enrichedProfiles = [], processedCount = 2,
           shop_requests = 2, shop_delays = []\<rparr> \<and>
   getShopifyCustomerIdByEmail orderless_shop (email ann) 0 [] =
     Some (Some (JObj [(''id'', JNum 7), (''email'', JStr ''ann@x.com'')]), 1, []) \<and>
   getMostRecentOrder orderless_shop (Some (JNum 7)) 1 = Some JNull \<and>
   enrich_profile orderless_shop [] ann (enrich_init None) =
     Some \<lparr>enriched_file = None, enrichedProfiles = [], processedCount = 1,
           shop_requests = 2, shop_delays = []\<rparr>"
proof -
  let ?c = "Some (JObj [(''id'', JNum 7), (''email'', JStr ''ann@x.com'')])"
  have l1: "getShopifyCustomerIdByEmail empty_shop (email ann) 0 [] = Some (Some JNull, 1, [])"
    by (simp add: enrich_eval empty_shop_def)
  have l2: "getShopifyCustomerIdByEmail orderless_shop (email ann) 0 [] = Some (?c, 1, [])"
    by (simp add: enrich_eval orderless_shop_def)
  have o2: "getMostRecentOrder orderless_shop (Some (JNum 7)) 1 = Some JNull"
    by (simp add: enrich_eval orderless_shop_def)
  have n: "\<not> js_includes [] (JStr (email ann))" by (simp add: js_includes_def)
  have h1: "\<not> js_includes [] (JStr (email ann)) \<and>
      getShopifyCustomerIdByEmail empty_shop (email ann) (shop_requests (enrich_init None))
        (shop_delays (enrich_init None)) = Some (Some JNull, 1, []) \<and>
      (\<not> truthy (Some JNull) \<or>
       \<not> truthy (getMostRecentOrder empty_shop (opt_prop (Some JNull) ''id'') 1))"
    using n l1 by (simp add: enrich_init_def)
  from enricher_skips_missing_customer_or_order
         [of "[]" ann empty_shop "enrich_init None" "Some JNull" 1 "[]" "[bob]",
          THEN conjunct1, THEN mp, OF h1]
  obtain st' where s: "enrich_profile empty_shop [] ann (enrich_init None) = Some st'"
    "enriched_file st' = enriched_file (enrich_init None)"
    "enrichedProfiles st' = enrichedProfiles (enrich_init None)"
    "processedCount st' = processedCount (enrich_init None) + 1"
    "enrichKlaviyoProfiles empty_shop [] [ann, bob] (enrich_init None) =
       enrichKlaviyoProfiles empty_shop [] [bob] st'"
    by blast
  have a: "enrich_profile empty_shop [] ann (enrich_init None) =
     Some \<lparr>enriched_file = None, enrichedProfiles = [], processedCount = 1,
           shop_requests = 1, shop_delays = []\<rparr>"
    by (simp add: enrich_eval empty_shop_def)
  with s(1) have st': "st' = \<lparr>enriched_file = None, enrichedProfiles = [], processedCount = 1,
           shop_requests = 1, shop_delays = []\<rparr>"
    by simp
  have b: "enrichKlaviyoProfiles empty_shop [] [ann, bob] (enrich_init None) =
     Some \<lparr>enriched_file = None, enrichedProfiles = [], processedCount = 2,
           shop_requests = 2, shop_delays = []\<rparr>"
    unfolding s(5) st' by (simp add: enrich_eval empty_shop_def)
  have h2: "\<not> js_includes [] (JStr (email ann)) \<and>
      getShopifyCustomerIdByEmail orderless_shop (email ann) (shop_requests (enrich_init None))
        (shop_delays (enrich_init None)) = Some (?c, 1, []) \<and>
      (\<not> truthy ?c \<or>
       \<not> truthy (getMostRecentOrder orderless_shop (opt_prop ?c ''id'') 1))"
    using n l2 o2 by (simp add: enrich_init_def)
  from enricher_skips_missing_customer_or_order
         [of "[]" ann orderless_shop "enrich_init None" ?c 1 "[]" "[]",
          THEN conjunct1, THEN mp, OF h2]
  obtain st2 where s2: "enrich_profile orderless_shop [] ann (enrich_init None) = Some st2"
    "enriched_file st2 = enriched_file (enrich_init None)"
    by blast
  have c: "enrich_profile orderless_shop [] ann (enrich_init None) =
     Some \<lparr>enriched_file = None, enrichedProfiles = [], processedCount = 1,
           shop_requests = 2, shop_delays = []\<rparr>"
    by (simp add: enrich_eval orderless_shop_def)
  from l1 a b l2 o2 c show ?thesis by simp
qed

text \<open>
  Claim C9. Loading the processed emails from a log never fails: every non-empty line
  that is not valid JSON is warned about, and the emails returned are those of the log
  with such lines removed. Every line that parses to an object with a truthy
  \<open>email\<close> contributes it; the emails returned are exactly these.
\<close>

theorem loader_ignores_malformed_lines:
  "(\<forall>s. s \<noteq> [] \<and> Unparseable s \<in> set ls \<longrightarrow>
        Unparseable s \<in> set (snd (loadProcessedEmailsFromNDJSON (Some ls)))) \<and>
   fst (loadProcessedEmailsFromNDJSON (Some ls)) =
     fst (loadProcessedEmailsFromNDJSON (Some (filter is_parsed ls))) \<and>
   (\<forall>j e. Parsed j \<in> set ls \<and> opt_prop (Some j) ''email'' = Some e \<and> truthy (Some e) \<longrightarrow>
        e \<in> set (fst (loadProcessedEmailsFromNDJSON (Some ls)))) \<and>
   set (fst (loadProcessedEmailsFromNDJSON (Some ls))) =
     {e. truthy (Some e) \<and> (\<exists>l\<in>set ls. line_email l = Some e)}"
proof (intro conjI allI impI)
  fix s assume "s \<noteq> [] \<and> Unparseable s \<in> set ls"
  then show "Unparseable s \<in> set (snd (loadProcessedEmailsFromNDJSON (Some ls)))"
    by (simp add: loadProcessedEmailsFromNDJSON_def load_lines_warned warns_def)
next
  have "filter (\<lambda>l. l \<noteq> Unparseable []) (filter is_parsed ls) =
        filter is_parsed (filter (\<lambda>l. l \<noteq> Unparseable []) ls)"
    by (induction ls) auto
  then show "fst (loadProcessedEmailsFromNDJSON (Some ls)) =
     fst (loadProcessedEmailsFromNDJSON (Some (filter is_parsed ls)))"
    using load_lines_ignores[of "filter (\<lambda>l. l \<noteq> Unparseable []) ls" "[]" "[]" "[]"]
    by (simp add: loadProcessedEmailsFromNDJSON_def)
next
  show e: "set (fst (loadProcessedEmailsFromNDJSON (Some ls))) =
     {e. truthy (Some e) \<and> (\<exists>l\<in>set ls. line_email l = Some e)}"
    using loaded_emails[of "Some ls"] by (simp add: log_lines_def)
  fix j e assume "Parsed j \<in> set ls \<and> opt_prop (Some j) ''email'' = Some e \<and> truthy (Some e)"
  then show "e \<in> set (fst (loadProcessedEmailsFromNDJSON (Some ls)))"
    unfolding e by (auto simp: line_email_def intro!: bexI[of _ "Parsed j"])
qed

text \<open>
  On a log with a truncated line, an empty line and a line holding null.
\<close>

theorem loader_ignores_malformed_lines_witness:
  "broken_text \<noteq> [] \<and> Unparseable broken_text \<in> set demo_log \<and>
   loadProcessedEmailsFromNDJSON (Some demo_log) =
     ([JStr ''ann@x.com'', JStr ''cy@x.com''], [Unparseable broken_text, Parsed JNull]) \<and>
   Unparseable broken_text \<in> set (snd (loadProcessedEmailsFromNDJSON (Some demo_log))) \<and>
   filter is_parsed demo_log =
     [Parsed (enriched_record ann summary_A), Parsed JNull, Parsed (JObj [(''email'', JStr [])]),
      Parsed (enriched_record cy summary_A)] \<and>
   fst (loadProcessedEmailsFromNDJSON (Some (filter is_parsed demo_log))) =
     [JStr ''ann@x.com'', JStr ''cy@x.com''] \<and>
   Parsed (enriched_record cy summary_A) \<in> set demo_log \<and>
   opt_prop (Some (enriched_record cy summary_A)) ''email'' = Some (JStr ''cy@x.com'') \<and>
   truthy (Some (JStr ''cy@x.com'')) \<and>
   JStr ''cy@x.com'' \<in> set (fst (loadProcessedEmailsFromNDJSON (Some demo_log)))"
proof -
  have ev: "loadProcessedEmailsFromNDJSON (Some demo_log) =
     ([JStr ''ann@x.com'', JStr ''cy@x.com''], [Unparseable broken_text, Parsed JNull])"
    by (simp add: loadProcessedEmailsFromNDJSON_def demo_log_def broken_text_def
        enriched_record_def set_add_def js_includes_def ann_def cy_def)
  have f: "filter is_parsed demo_log =
     [Parsed (enriched_record ann summary_A), Parsed JNull, Parsed (JObj [(''email'', JStr [])]),
      Parsed (enriched_record cy summary_A)]"
    by (simp add: demo_log_def is_parsed_def)
  have h: "broken_text \<noteq> [] \<and> Unparseable broken_text \<in> set demo_log"
    by (simp add: demo_log_def broken_text_def)
  have g: "Parsed (enriched_record cy summary_A) \<in> set demo_log \<and>
      opt_prop (Some (enriched_record cy summary_A)) ''email'' = Some (JStr ''cy@x.com'') \<and>
      truthy (Some (JStr ''cy@x.com''))"
    by (simp add: demo_log_def enriched_record_def cy_def)
  note T = loader_ignores_malformed_lines [of demo_log]
  from T h have a: "Unparseable broken_text \<in> set (snd (loadProcessedEmailsFromNDJSON (Some demo_log)))"
    by blast
  from T have b: "fst (loadProcessedEmailsFromNDJSON (Some demo_log)) =
     fst (loadProcessedEmailsFromNDJSON (Some (filter is_parsed demo_log)))"
    by blast
  from T g have c: "JStr ''cy@x.com'' \<in> set (fst (loadProcessedEmailsFromNDJSON (Some demo_log)))"
    by blast
  from b ev have b': "fst (loadProcessedEmailsFromNDJSON (Some (filter is_parsed demo_log))) =
     [JStr ''ann@x.com'', JStr ''cy@x.com'']"
    by simp
  from h ev a f b' g c show ?thesis by blast
qed


section \<open>Properties of the chart aggregator\<close>

text \<open>
  Claim C8. \<open>processNDJSON\<close> counts, for every key, the lines of the log whose record
  has a truthy order title and SKU and whose key \<open>title (SKU: sku)\<close> it is; lines that
  are blank or do not parse count for the total only. The chart takes the ten entries
  with the highest counts, or all of them when there are fewer: ten or all in number, each
  key once, sorted by falling count, entries of equal count in the order of the log, and
  no entry left out has a higher count than one taken. On a log with three records A/1 and one record B/2 the counts are 3 and 1 and
  both are taken, A first, whichever came first in the log.
\<close>

theorem chart_counts_and_top_products:
  "distinct (map fst (fst (processNDJSON ls))) \<and>
   (\<forall>k. map_of (fst (processNDJSON ls)) k =
          (if occurrences k ls = 0 then None else Some (occurrences k ls))) \<and>
   snd (processNDJSON ls) = length ls \<and>
   line_key (order_record t s) =
     (if t \<noteq> [] \<and> s \<noteq> [] then Some (t @ '' (SKU: '' @ s @ '')'') else None) \<and>
   length (top_products counts) \<le> 10 \<and>
   length (top_products counts) = min 10 (length counts) \<and>
   (distinct (map fst counts) \<longrightarrow> distinct (map fst (top_products counts))) \<and>
   (\<forall>c. prefix (filter (\<lambda>x. snd x = c) (top_products counts))
          (filter (\<lambda>x. snd x = c) counts)) \<and>
   set (top_products counts) \<subseteq> set counts \<and>
   sorted_wrt (\<lambda>a b. snd b \<le> snd a) (top_products counts) \<and>
   (\<forall>x\<in>set (top_products counts). \<forall>y\<in>set counts.
      y \<notin> set (top_products counts) \<longrightarrow> snd y \<le> snd x) \<and>
   (length counts \<le> 10 \<longrightarrow> set (top_products counts) = set counts) \<and>
   processNDJSON [order_record ''A'' ''1'', order_record ''A'' ''1'', order_record ''A'' ''1'',
                  order_record ''B'' ''2''] =
     ([(''A (SKU: 1)'', 3), (''B (SKU: 2)'', 1)], 4) \<and>
   top_products [(''A (SKU: 1)'', 3), (''B (SKU: 2)'', 1)] =
     [(''A (SKU: 1)'', 3), (''B (SKU: 2)'', 1)] \<and>
   top_products [(''B (SKU: 2)'', 1), (''A (SKU: 1)'', 3)] =
     [(''A (SKU: 1)'', 3), (''B (SKU: 2)'', 1)]"
proof -
  have c1: "distinct (map fst (fst (processNDJSON ls)))"
    by (simp add: processNDJSON_def count_lines_distinct)
  have c2: "\<forall>k. map_of (fst (processNDJSON ls)) k =
          (if occurrences k ls = 0 then None else Some (occurrences k ls))"
    by (simp add: processNDJSON_def count_lines_counts)
  have c3: "snd (processNDJSON ls) = length ls"
    by (simp add: processNDJSON_def count_lines_total)
  have c4: "line_key (order_record t s) =
     (if t \<noteq> [] \<and> s \<noteq> [] then Some (t @ '' (SKU: '' @ s @ '')'') else None)"
    by (simp add: line_key_def order_record_def chart_key_def)
  have c5: "length (top_products counts) \<le> 10"
    by (simp add: top_products_def MAX_PRODUCTS_def)
  have c5a: "length (top_products counts) = min 10 (length counts)"
    by (rule top_length)
  have c5b: "distinct (map fst counts) \<longrightarrow> distinct (map fst (top_products counts))"
    using top_distinct by blast
  have c5c: "\<forall>c. prefix (filter (\<lambda>x. snd x = c) (top_products counts))
          (filter (\<lambda>x. snd x = c) counts)"
    using top_keeps_order by blast
  have c6: "set (top_products counts) \<subseteq> set counts"
    using set_take_subset [of MAX_PRODUCTS "sort_key (\<lambda>(k, c). - int c) counts"]
    by (simp add: top_products_def)
  have c7: "sorted_wrt (\<lambda>a b. snd b \<le> snd a) (top_products counts)"
    by (rule top_sorted)
  have c8: "\<forall>x\<in>set (top_products counts). \<forall>y\<in>set counts.
      y \<notin> set (top_products counts) \<longrightarrow> snd y \<le> snd x"
    using top_best by blast
  have c9: "length counts \<le> 10 \<longrightarrow> set (top_products counts) = set counts"
    by (simp add: top_products_def MAX_PRODUCTS_def)
  have c10: "processNDJSON [order_record ''A'' ''1'', order_record ''A'' ''1'',
                  order_record ''A'' ''1'', order_record ''B'' ''2''] =
     ([(''A (SKU: 1)'', 3), (''B (SKU: 2)'', 1)], 4)"
    by (simp add: processNDJSON_def line_key_def order_record_def chart_key_def)
  have c11: "top_products [(''A (SKU: 1)'', 3), (''B (SKU: 2)'', 1)] =
     [(''A (SKU: 1)'', 3), (''B (SKU: 2)'', 1)]"
    by (simp add: top_products_def MAX_PRODUCTS_def)
  have c12: "top_products [(''B (SKU: 2)'', 1), (''A (SKU: 1)'', 3)] =
     [(''A (SKU: 1)'', 3), (''B (SKU: 2)'', 1)]"
    by (simp add: top_products_def MAX_PRODUCTS_def)
  from c1 c2 c3 c4 c5 c5a c5b c5c c6 c7 c8 c9 c10 c11 c12 show ?thesis by blast
qed

text \<open>
  On a log where B comes first and two lines do not parse, and on eleven products.
\<close>

theorem chart_counts_and_top_products_witness:
  "processNDJSON mixed_log = ([(''B (SKU: 2)'', 1), (''A (SKU: 1)'', 3)], 6) \<and>
   occurrences ''A (SKU: 1)'' mixed_log = 3 \<and>
   map_of (fst (processNDJSON mixed_log)) ''A (SKU: 1)'' = Some 3 \<and>
   map_of (fst (processNDJSON mixed_log)) ''C (SKU: 3)'' = None \<and>
   length [(''B (SKU: 2)'', 1::nat), (''A (SKU: 1)'', 3)] \<le> 10 \<and>
   set (top_products [(''B (SKU: 2)'', 1), (''A (SKU: 1)'', 3)]) =
     set [(''B (SKU: 2)'', 1), (''A (SKU: 1)'', 3)] \<and>
   top_products eleven_products =
     [(''k'', 11), (''j'', 10), (''i'', 9), (''h'', 8), (''g'', 7), (''f'', 6), (''e'', 5),
      (''d'', 4), (''c'', 3), (''b'', 2)] \<and>
   length (top_products eleven_products) = min 10 (length eleven_products) \<and>
   distinct (map fst eleven_products) \<and>
   distinct (map fst (top_products eleven_products)) \<and>
   (''b'', 2) \<in> set (top_products eleven_products) \<and>
   (''a'', 1) \<in> set eleven_products \<and>
   (''a'', 1) \<notin> set (top_products eleven_products) \<and>
   snd (''a'', 1::nat) \<le> snd (''b'', 2::nat)"
proof -
  have p: "processNDJSON mixed_log = ([(''B (SKU: 2)'', 1), (''A (SKU: 1)'', 3)], 6)"
    by (simp add: processNDJSON_def line_key_def order_record_def chart_key_def mixed_log_def
        broken_text_def)
  have o: "occurrences ''A (SKU: 1)'' mixed_log = 3" "occurrences ''C (SKU: 3)'' mixed_log = 0"
    by (simp_all add: occurrences_def line_key_def order_record_def chart_key_def mixed_log_def
        broken_text_def)
  have t: "top_products eleven_products =
     [(''k'', 11), (''j'', 10), (''i'', 9), (''h'', 8), (''g'', 7), (''f'', 6), (''e'', 5),
      (''d'', 4), (''c'', 3), (''b'', 2)]"
    by (simp add: top_products_def MAX_PRODUCTS_def eleven_products_def)
  have m: "(''a'', 1) \<in> set eleven_products" by (simp add: eleven_products_def)
  have l: "length [(''B (SKU: 2)'', 1::nat), (''A (SKU: 1)'', 3)] \<le> 10" by simp
  from chart_counts_and_top_products
         [of mixed_log "''B''" "''2''" "[(''B (SKU: 2)'', 1), (''A (SKU: 1)'', 3)]"]
  have a: "map_of (fst (processNDJSON mixed_log)) ''A (SKU: 1)'' = Some 3"
    "map_of (fst (processNDJSON mixed_log)) ''C (SKU: 3)'' = None"
    "set (top_products [(''B (SKU: 2)'', 1), (''A (SKU: 1)'', 3)]) =
       set [(''B (SKU: 2)'', 1), (''A (SKU: 1)'', 3)]"
    using o l by auto
  from chart_counts_and_top_products [of mixed_log "''B''" "''2''" eleven_products] t m
  have b: "snd (''a'', 1::nat) \<le> snd (''b'', 2::nat)" by simp
  have de: "distinct (map fst eleven_products)" by (simp add: eleven_products_def)
  from chart_counts_and_top_products [of mixed_log "''B''" "''2''" eleven_products] de
  have c: "length (top_products eleven_products) = min 10 (length eleven_products)"
    "distinct (map fst (top_products eleven_products))"
    by blast+
  from p o a t m b c de show ?thesis by simp
qed

end
